theory Spec2Isabelle
  imports Complex_Main "HOL-Library.Word" "HOL-Library.Log_Nat"
begin

unbundle bit_operations_syntax

section \<open>JavaScript numbers\<close>

text \<open>
  A \<open>number\<close> is an IEEE 754 binary64 value: a finite real that the format can
  represent, one of the two infinities, or NaN. Every arithmetic operation computes
  the exact real result and rounds it to the nearest representable value, ties to the
  even significand, overflowing to an infinity (\<open>round64\<close>). The sign of zero is not
  kept: the program never divides by a zero and never inspects the sign of a zero, so
  no result it computes can tell the two zeros apart.
\<close>

datatype number = Fin real | PInf | NInf | NaN

definition ilog2 :: "real \<Rightarrow> int" where
  \<comment> \<open>the binade of a positive real: \<open>2 ^ ilog2 x \<le> x < 2 ^ (ilog2 x + 1)\<close>\<close>
  "ilog2 x = (if 1 \<le> x then bitlen \<lfloor>x\<rfloor> - 1 else - bitlen (\<lceil>1 / x\<rceil> - 1))"

definition rhe :: "real \<Rightarrow> int" where
  \<comment> \<open>round to the nearest integer, a tie to the even one\<close>
  "rhe y = (let f = \<lfloor>y\<rfloor>; d = y - of_int f
            in if d < 1/2 then f else if 1/2 < d then f + 1
               else if even f then f else f + 1)"

definition ulp_exp :: "real \<Rightarrow> int" where
  \<comment> \<open>exponent of the unit in the last place: 53-bit significands, subnormals below \<open>2 ^ -1022\<close>\<close>
  "ulp_exp x = max (ilog2 \<bar>x\<bar>) (- 1022) - 52"

definition round_real :: "real \<Rightarrow> real" where
  \<comment> \<open>the nearest multiple of the unit in the last place\<close>
  "round_real x = (if x = 0 then 0
                   else let e = ulp_exp x in of_int (rhe (x / 2 powi e)) * 2 powi e)"

definition overflow :: "real \<Rightarrow> number" where
  "overflow r = (if 2 ^ 1024 \<le> r then PInf
                 else if r \<le> - (2 ^ 1024) then NInf
                 else Fin r)"

definition round64 :: "real \<Rightarrow> number" where
  "round64 x = overflow (round_real x)"

definition lit :: "real \<Rightarrow> number" where
  \<comment> \<open>a numeric literal of the source denotes the double nearest to its decimal value\<close>
  "lit x = round64 x"

definition number_of_nat :: "nat \<Rightarrow> number" where
  "number_of_nat n = round64 (real n)"

definition number_of_int :: "int \<Rightarrow> number" where
  "number_of_int i = round64 (real_of_int i)"

definition is_neg :: "number \<Rightarrow> bool" where
  "is_neg x = (case x of Fin a \<Rightarrow> a < 0 | NInf \<Rightarrow> True | _ \<Rightarrow> False)"

definition inf_of :: "bool \<Rightarrow> number" where
  "inf_of negative = (if negative then NInf else PInf)"

definition isFinite :: "number \<Rightarrow> bool" where
  "isFinite x = (case x of Fin a \<Rightarrow> True | _ \<Rightarrow> False)"

instantiation number :: "{zero, one, plus, minus, uminus, times, inverse, ord}"
begin

definition zero_number :: number where
  "zero_number = Fin 0"

definition one_number :: number where
  "one_number = Fin 1"

definition uminus_number :: "number \<Rightarrow> number" where
  "uminus_number x = (case x of Fin a \<Rightarrow> Fin (- a) | PInf \<Rightarrow> NInf | NInf \<Rightarrow> PInf | NaN \<Rightarrow> NaN)"

definition plus_number :: "number \<Rightarrow> number \<Rightarrow> number" where
  "plus_number x y =
     (if x = NaN \<or> y = NaN then NaN
      else case x of
        Fin a \<Rightarrow> (case y of Fin b \<Rightarrow> round64 (a + b) | _ \<Rightarrow> y)
      | _ \<Rightarrow> (case y of Fin b \<Rightarrow> x | _ \<Rightarrow> if x = y then x else NaN))"

definition minus_number :: "number \<Rightarrow> number \<Rightarrow> number" where
  "minus_number x y =
     (if x = NaN \<or> y = NaN then NaN
      else case x of
        Fin a \<Rightarrow> (case y of Fin b \<Rightarrow> round64 (a - b) | _ \<Rightarrow> - y)
      | _ \<Rightarrow> (case y of Fin b \<Rightarrow> x | _ \<Rightarrow> if x = y then NaN else x))"

definition times_number :: "number \<Rightarrow> number \<Rightarrow> number" where
  "times_number x y =
     (if x = NaN \<or> y = NaN then NaN
      else case x of
        Fin a \<Rightarrow> (case y of Fin b \<Rightarrow> round64 (a * b)
                   | _ \<Rightarrow> if a = 0 then NaN else inf_of (is_neg x \<noteq> is_neg y))
      | _ \<Rightarrow> if y = Fin 0 then NaN else inf_of (is_neg x \<noteq> is_neg y))"

definition divide_number :: "number \<Rightarrow> number \<Rightarrow> number" where
  "divide_number x y =
     (if x = NaN \<or> y = NaN then NaN
      else case x of
        Fin a \<Rightarrow> (case y of
                     Fin b \<Rightarrow> if b = 0 then (if a = 0 then NaN else inf_of (a < 0))
                              else round64 (a / b)
                   | _ \<Rightarrow> Fin 0)
      | _ \<Rightarrow> (case y of Fin b \<Rightarrow> inf_of (is_neg x \<noteq> (b < 0)) | _ \<Rightarrow> NaN))"

definition inverse_number :: "number \<Rightarrow> number" where
  "inverse_number x = divide (Fin 1) x"

definition less_number :: "number \<Rightarrow> number \<Rightarrow> bool" where
  "less_number x y =
     (case x of
        Fin a \<Rightarrow> (case y of Fin b \<Rightarrow> a < b | PInf \<Rightarrow> True | _ \<Rightarrow> False)
      | NInf \<Rightarrow> (case y of Fin b \<Rightarrow> True | PInf \<Rightarrow> True | _ \<Rightarrow> False)
      | _ \<Rightarrow> False)"

definition less_eq_number :: "number \<Rightarrow> number \<Rightarrow> bool" where
  "less_eq_number x y = (x \<noteq> NaN \<and> y \<noteq> NaN \<and> (x < y \<or> x = y))"

instance ..

end

definition Math_max :: "number \<Rightarrow> number \<Rightarrow> number" where
  "Math_max x y = (if x = NaN \<or> y = NaN then NaN else if x < y then y else x)"

definition Math_min :: "number \<Rightarrow> number \<Rightarrow> number" where
  "Math_min x y = (if x = NaN \<or> y = NaN then NaN else if y < x then y else x)"

definition Math_sqrt :: "number \<Rightarrow> number" where
  "Math_sqrt x = (case x of Fin a \<Rightarrow> if a < 0 then NaN else round64 (sqrt a)
                          | PInf \<Rightarrow> PInf | _ \<Rightarrow> NaN)"

definition Math_floor :: "number \<Rightarrow> number" where
  "Math_floor x = (case x of Fin a \<Rightarrow> Fin (of_int \<lfloor>a\<rfloor>) | _ \<Rightarrow> x)"

definition to_int32 :: "number \<Rightarrow> 32 word" where
  \<comment> \<open>the conversion behind \<open>x | 0\<close>: truncate towards zero, keep the low 32 bits\<close>
  "to_int32 x = (case x of Fin a \<Rightarrow> word_of_int (if 0 \<le> a then \<lfloor>a\<rfloor> else \<lceil>a\<rceil>) | _ \<Rightarrow> 0)"


section \<open>32-bit integers and strings\<close>

text \<open>
  The bitwise operators work on the 32-bit pattern of their operands: \<open>x << k\<close> is
  \<open>push_bit k x\<close>, \<open>x >>> k\<close> is \<open>drop_bit k x\<close>, \<open>Math.imul\<close> is the wrapping
  product. \<open>x >>> 0\<close> and \<open>x | 0\<close> leave the pattern alone and only choose whether
  it is read unsigned (\<open>unat\<close>) or signed (\<open>sint\<close>).
  A string is its sequence of UTF-16 code units.
\<close>

type_synonym int32 = "32 word"

type_synonym jsstring = "16 word list"

definition ustr :: "string \<Rightarrow> jsstring" where
  "ustr s = map of_char s"

definition charCode :: "16 word \<Rightarrow> int32" where
  "charCode c = ucast c"

definition xorshift32 :: "int32 \<Rightarrow> int32" where
  \<comment> \<open>\<open>x ^= x << 13; x ^= x >>> 17; x ^= x << 5; x |= 0\<close>\<close>
  "xorshift32 x0 =
     (let x1 = x0 XOR push_bit 13 x0;
          x2 = x1 XOR drop_bit 17 x1;
          x3 = x2 XOR push_bit 5 x2
      in x3)"

definition seed_or :: "int32 \<Rightarrow> number \<Rightarrow> int32" where
  \<comment> \<open>\<open>(seed | 0) || fallback\<close>\<close>
  "seed_or fallback seed = (if to_int32 seed = 0 then fallback else to_int32 seed)"

definition hex_digit :: "nat \<Rightarrow> 16 word" where
  "hex_digit d = (if d < 10 then of_nat (48 + d) else of_nat (87 + d))"

fun toString16 :: "nat \<Rightarrow> jsstring" where
  "toString16 n = (if n < 16 then [hex_digit n] else toString16 (n div 16) @ [hex_digit (n mod 16)])"

declare toString16.simps [simp del]

definition padStart2 :: "jsstring \<Rightarrow> jsstring" where
  \<comment> \<open>\<open>s.padStart(2, "0")\<close>\<close>
  "padStart2 s = replicate (2 - length s) (of_nat 48) @ s"

fun join_lines :: "jsstring list \<Rightarrow> jsstring" where
  \<comment> \<open>\<open>lines.join("\n")\<close>\<close>
  "join_lines [] = []"
| "join_lines [s] = s"
| "join_lines (s # t # ss) = s @ [10] @ join_lines (t # ss)"

definition decorate :: "jsstring list \<Rightarrow> jsstring list" where
  \<comment> \<open>\<open>lines.map((s, i) => `${i.toString(16).padStart(2, "0")}|${s}`)\<close>\<close>
  "decorate lines = map (\<lambda>(i, s). padStart2 (toString16 i) @ ustr ''|'' @ s) (enumerate 0 lines)"

text \<open>
  The conversions of a number to text (\<open>String(x)\<close> in a template literal and
  \<open>x.toFixed(6)\<close>), the conversion \<open>Number(s)\<close> of text to a number and the clock
  \<open>Date.now()\<close> belong to the host, not to the program: they are parameters.
\<close>

record host =
  toString :: "number \<Rightarrow> jsstring"
  toFixed6 :: "number \<Rightarrow> jsstring"
  Number :: "jsstring \<Rightarrow> number"

section \<open>Loops over the value array\<close>

text \<open>
  The four source files (\<open>heavyLogic.ts\<close>, \<open>heavyClass.ts\<close>, \<open>heavyFactory.ts\<close>,
  \<open>heavyFactoryPrototype.ts\<close>) carry the same loops, written over \<open>state.values\<close>,
  \<open>this.values\<close> and \<open>_values\<close>. A loop that only reads the array is a left fold in index
  order; a loop that writes \<open>values[i]\<close> is a recursion on \<open>i\<close> that tests \<open>i\<close>
  against the current length and updates the array at \<open>i\<close>.
  \<open>new Array<number>(n)\<close> has \<open>n\<close> holes; a hole read as a number is NaN, and
  every slot is written before it is read.
\<close>

definition new_Array :: "nat \<Rightarrow> number list" where
  "new_Array n = replicate n NaN"

definition fnv_step :: "number \<Rightarrow> number \<Rightarrow> int32 \<times> number \<Rightarrow> number \<Rightarrow> int32 \<times> number" where
  "fnv_step scale bias acc raw =
     (let hash = fst acc; running = snd acc;
          transformed = raw * scale + bias;
          running = running + transformed;
          hash = hash XOR to_int32 (transformed * lit 1000003);
          hash = hash * 16777619
      in (hash, running))"

definition tag_step :: "int32 \<Rightarrow> 16 word \<Rightarrow> int32" where
  "tag_step hash c =
     (let hash = hash XOR charCode c;
          hash = hash + push_bit 13 hash;
          hash = hash XOR drop_bit 7 hash
      in hash)"

definition avalanche :: "int32 \<Rightarrow> int32" where
  \<comment> \<open>the last five statements of \<open>checksum\<close>, before \<open>return hash | 0\<close>\<close>
  "avalanche hash0 =
     (let hash = hash0 XOR drop_bit 16 hash0;
          hash = hash * 2246822507;
          hash = hash XOR drop_bit 13 hash;
          hash = hash * 3266489909;
          hash = hash XOR drop_bit 16 hash
      in hash)"

definition sum_values :: "number list \<Rightarrow> number" where
  "sum_values vs = foldl (\<lambda>sum v. sum + v) 0 vs"

definition sq_values :: "number \<Rightarrow> number list \<Rightarrow> number" where
  "sq_values mean vs = foldl (\<lambda>sq v. let d = v - mean in sq + d * d) 0 vs"

definition epsilon :: number where
  "epsilon = lit 0.000001"

function normalize_loop :: "number \<Rightarrow> number \<Rightarrow> nat \<Rightarrow> number list \<Rightarrow> number list" where
  "normalize_loop mean std i vs =
     (if i < length vs then
        let centered = vs ! i - mean;
            normalized = centered / (std + epsilon);
            clamped = Math_max (- lit 8) (Math_min (lit 8) normalized)
        in normalize_loop mean std (i + 1) (vs[i := clamped])
      else vs)"
  by pat_completeness auto
termination
  by (relation "measure (\<lambda>(mean, std, i, vs). length vs - i)") auto

declare normalize_loop.simps [simp del]

function average_loop :: "nat \<Rightarrow> nat \<Rightarrow> number list \<Rightarrow> nat \<Rightarrow> number \<Rightarrow> number list \<Rightarrow> number list" where
  "average_loop n w vs i running output =
     (if i < n then
        let running = running + vs ! i;
            running = (if w \<le> i then running - vs ! (i - w) else running);
            count = (if i + 1 < w then i + 1 else w)
        in average_loop n w vs (i + 1) running (output[i := running / number_of_nat count])
      else output)"
  by pat_completeness auto
termination
  by (relation "measure (\<lambda>(n, w, vs, i, running, output). n - i)") auto

declare average_loop.simps [simp del]

function adjust_loop :: "nat \<Rightarrow> number \<Rightarrow> number \<Rightarrow> nat \<Rightarrow> number list \<Rightarrow> number list" where
  "adjust_loop n scale bias i output =
     (if i < n then
        let v = output ! i;
            adjusted = v * scale + bias * lit 0.001
        in adjust_loop n scale bias (i + 1) (output[i := adjusted])
      else output)"
  by pat_completeness auto
termination
  by (relation "measure (\<lambda>(n, scale, bias, i, output). n - i)") auto

declare adjust_loop.simps [simp del]

definition window :: "nat \<Rightarrow> number \<Rightarrow> nat" where
  \<comment> \<open>\<open>Math.max(1, Math.min(windowSize | 0, Math.max(1, n)))\<close>\<close>
  "window n windowSize = nat (max 1 (min (sint (to_int32 windowSize)) (max 1 (int n))))"

definition stats_step :: "number \<times> number \<times> number \<Rightarrow> number \<Rightarrow> number \<times> number \<times> number" where
  "stats_step acc v =
     (let min = fst acc; max = fst (snd acc); sum = snd (snd acc);
          min = (if v < min then v else min);
          max = (if max < v then v else max);
          sum = sum + v
      in (min, max, sum))"

function scramble_loop :: "nat \<Rightarrow> int32 \<Rightarrow> number list \<Rightarrow> int32 \<times> number list" where
  "scramble_loop i x vs =
     (if i < length vs then
        let x = xorshift32 x;
            rnd = number_of_nat (unat x) / lit 4294967295;
            v = vs ! i;
            sign = (if x AND 1 = 0 then lit 1 else - lit 1);
            delta = sign * (rnd * lit 0.01 + number_of_nat (i mod 7) * lit 0.0001)
        in scramble_loop (i + 1) x (vs[i := v + delta])
      else (x, vs))"
  by pat_completeness auto
termination
  by (relation "measure (\<lambda>(i, x, vs). length vs - i)") auto

declare scramble_loop.simps [simp del]

function relax_loop :: "number \<Rightarrow> number \<Rightarrow> nat \<Rightarrow> number list \<Rightarrow> nat \<Rightarrow> number list \<Rightarrow> number list" where
  "relax_loop scale bias n vs i temp =
     (if i < n then
        let left = (if 0 < i then vs ! (i - 1) else vs ! i);
            center = vs ! i;
            right = (if i + 1 < n then vs ! (i + 1) else vs ! i);
            target = (left + center + right) / lit 3;
            next = center + (target - center) * lit 0.25
        in relax_loop scale bias n vs (i + 1) (temp[i := next * scale + bias * lit 0.0001])
      else temp)"
  by pat_completeness auto
termination
  by (relation "measure (\<lambda>(scale, bias, n, vs, i, temp). n - i)") auto

declare relax_loop.simps [simp del]

function copy_loop :: "nat \<Rightarrow> number list \<Rightarrow> nat \<Rightarrow> number list \<Rightarrow> number list" where
  "copy_loop n temp i vs =
     (if i < n then copy_loop n temp (i + 1) (vs[i := temp ! i]) else vs)"
  by pat_completeness auto
termination
  by (relation "measure (\<lambda>(n, temp, i, vs). n - i)") auto

declare copy_loop.simps [simp del]

fun simulate_loop :: "nat \<Rightarrow> number \<Rightarrow> number \<Rightarrow> nat \<Rightarrow> number list \<times> number list \<Rightarrow> number list \<times> number list" where
  \<comment> \<open>\<open>for (let it = 0; it < steps; it++)\<close>, counted by the iterations still to run\<close>
  "simulate_loop 0 scale bias n (vs, temp) = (vs, temp)"
| "simulate_loop (Suc k) scale bias n (vs, temp) =
     (let temp = relax_loop scale bias n vs 0 temp;
          vs = copy_loop n temp 0 vs
      in simulate_loop k scale bias n (vs, temp))"

definition steps_of :: "number \<Rightarrow> nat" where
  \<comment> \<open>\<open>Math.max(1, iterations | 0)\<close>\<close>
  "steps_of iterations = nat (max 1 (sint (to_int32 iterations)))"

definition energy_of :: "number list \<Rightarrow> number" where
  "energy_of vs =
     foldl (\<lambda>energy i. let d = vs ! i - vs ! (i - 1) in energy + d * d) 0 [1..<length vs]"


section \<open>The shared kernel (\<open>heavyLogic.ts\<close>)\<close>

record ThinState =
  thin_id :: number
  thin_name :: jsstring
  thin_values :: "number list"
  thin_bias :: number
  thin_scale :: number
  thin_createdAt :: number
  thin_tag :: jsstring

definition doChecksum :: "ThinState \<Rightarrow> number" where
  "doChecksum state =
     (let hash = (2166136261 :: int32);
          running = (0 :: number);
          (hash, running) = foldl (fnv_step (thin_scale state) (thin_bias state)) (hash, running) (thin_values state);
          hash = hash XOR to_int32 (thin_id state);
          hash = hash * 16777619;
          hash = hash XOR to_int32 (number_of_nat (length (thin_name state)));
          hash = hash * 16777619;
          ts = to_int32 (thin_createdAt state);
          hash = hash XOR ts;
          hash = hash * 2246822519;
          hash = foldl tag_step hash (thin_tag state);
          hash = avalanche hash
      in number_of_int (sint hash))"

definition doNormalizeInPlace :: "ThinState \<Rightarrow> ThinState" where
  "doNormalizeInPlace state =
     (let sum = sum_values (thin_values state);
          mean = (if 0 < length (thin_values state) then sum / number_of_nat (length (thin_values state)) else 0);
          sq = sq_values mean (thin_values state);
          variance = (if 1 < length (thin_values state) then sq / number_of_nat (length (thin_values state) - 1) else 0);
          std = (if 0 < variance then Math_sqrt variance else 1);
          state = state\<lparr>thin_values := normalize_loop mean std 0 (thin_values state)\<rparr>;
          state = state\<lparr>thin_bias := thin_bias state * lit 0.9 + mean * lit 0.1\<rparr>;
          state = state\<lparr>thin_scale := thin_scale state * lit 0.9 + (1 / (std + epsilon)) * lit 0.1\<rparr>
      in state)"

definition doRollingAverage :: "ThinState \<Rightarrow> number \<Rightarrow> number list" where
  "doRollingAverage state windowSize =
     (let n = length (thin_values state);
          w = window n windowSize;
          output = new_Array n;
          running = 0;
          output = average_loop n w (thin_values state) 0 running output;
          output = adjust_loop n (thin_scale state) (thin_bias state) 0 output
      in output)"

definition doFormatSummary :: "host \<Rightarrow> ThinState \<Rightarrow> jsstring" where
  "doFormatSummary h state =
     (let (min, max, sum) = foldl stats_step (PInf, NInf, 0) (thin_values state);
          mean = (if length (thin_values state) \<noteq> 0 then sum / number_of_nat (length (thin_values state)) else 0);
          lines = [];
          lines = lines @ [ustr ''id='' @ toString h (thin_id state)];
          lines = lines @ [ustr ''name='' @ thin_name state];
          lines = lines @ [ustr ''tag='' @ thin_tag state];
          lines = lines @ [ustr ''len='' @ toString h (number_of_nat (length (thin_values state)))];
          lines = lines @ [ustr ''bias='' @ toFixed6 h (thin_bias state)];
          lines = lines @ [ustr ''scale='' @ toFixed6 h (thin_scale state)];
          lines = lines @ [ustr ''min='' @ toFixed6 h min];
          lines = lines @ [ustr ''max='' @ toFixed6 h max];
          lines = lines @ [ustr ''mean='' @ toFixed6 h mean];
          ck = doChecksum state;
          lines = lines @ [ustr ''checksum='' @ toString h ck];
          decorated = decorate lines
      in join_lines decorated)"

definition doScramble :: "ThinState \<Rightarrow> number \<Rightarrow> ThinState" where
  "doScramble state seed =
     (let x = seed_or 2463534242 seed;
          x = (xorshift32 ^^ 8) x;
          (x, vs) = scramble_loop 0 x (thin_values state);
          state = state\<lparr>thin_values := vs\<rparr>;
          state = state\<lparr>thin_bias := thin_bias state + (number_of_int (sint (x AND 255)) - lit 128) * lit 0.000001\<rparr>;
          state = state\<lparr>thin_scale := thin_scale state * (1 + (number_of_int (sint (drop_bit 8 x AND 255)) - lit 128) * lit 0.000001)\<rparr>
      in state)"

definition doSimulate :: "ThinState \<Rightarrow> number \<Rightarrow> number \<times> ThinState" where
  "doSimulate state iterations =
     (let steps = steps_of iterations;
          n = length (thin_values state)
      in if n = 0 then (0, state)
         else let temp = new_Array n;
                  (vs, temp) = simulate_loop steps (thin_scale state) (thin_bias state) n (thin_values state, temp);
                  state = state\<lparr>thin_values := vs\<rparr>
              in (energy_of (thin_values state), state))"

section \<open>The class (\<open>heavyClass.ts\<close>)\<close>

record meta =
  createdAt :: number
  tag :: jsstring

record HeavyThing =
  ht_id :: number
  ht_name :: jsstring
  ht_values :: "number list"
  ht_bias :: number
  ht_scale :: number
  ht_meta :: meta

definition new_HeavyThing ::
  "number \<Rightarrow> number \<Rightarrow> jsstring \<Rightarrow> number list \<Rightarrow> number \<Rightarrow> number \<Rightarrow> jsstring \<Rightarrow> HeavyThing" where
  \<comment> \<open>the constructor; \<open>now\<close> is what \<open>Date.now()\<close> returns when it runs\<close>
  "new_HeavyThing now id0 name values bias scale tag0 =
     \<lparr>ht_id = id0, ht_name = name, ht_values = values, ht_bias = bias, ht_scale = scale,
      ht_meta = \<lparr>createdAt = now, tag = tag0\<rparr>\<rparr>"

definition HeavyThing_checksum :: "HeavyThing \<Rightarrow> number" where
  "HeavyThing_checksum this =
     (let hash = (2166136261 :: int32);
          running = (0 :: number);
          (hash, running) = foldl (fnv_step (ht_scale this) (ht_bias this)) (hash, running) (ht_values this);
          hash = hash XOR to_int32 (ht_id this);
          hash = hash * 16777619;
          hash = hash XOR to_int32 (number_of_nat (length (ht_name this)));
          hash = hash * 16777619;
          ts = to_int32 (createdAt (ht_meta this));
          hash = hash XOR ts;
          hash = hash * 2246822519;
          hash = foldl tag_step hash (tag (ht_meta this));
          hash = avalanche hash
      in number_of_int (sint hash))"

definition HeavyThing_normalizeInPlace :: "HeavyThing \<Rightarrow> HeavyThing" where
  "HeavyThing_normalizeInPlace this =
     (let sum = sum_values (ht_values this);
          mean = (if 0 < length (ht_values this) then sum / number_of_nat (length (ht_values this)) else 0);
          sq = sq_values mean (ht_values this);
          variance = (if 1 < length (ht_values this) then sq / number_of_nat (length (ht_values this) - 1) else 0);
          std = (if 0 < variance then Math_sqrt variance else 1);
          this = this\<lparr>ht_values := normalize_loop mean std 0 (ht_values this)\<rparr>;
          this = this\<lparr>ht_bias := ht_bias this * lit 0.9 + mean * lit 0.1\<rparr>;
          this = this\<lparr>ht_scale := ht_scale this * lit 0.9 + (1 / (std + epsilon)) * lit 0.1\<rparr>
      in this)"

definition HeavyThing_rollingAverage :: "HeavyThing \<Rightarrow> number \<Rightarrow> number list" where
  "HeavyThing_rollingAverage this windowSize =
     (let n = length (ht_values this);
          w = window n windowSize;
          output = new_Array n;
          running = 0;
          output = average_loop n w (ht_values this) 0 running output;
          output = adjust_loop n (ht_scale this) (ht_bias this) 0 output
      in output)"

definition HeavyThing_formatSummary :: "host \<Rightarrow> HeavyThing \<Rightarrow> jsstring" where
  "HeavyThing_formatSummary h this =
     (let (min, max, sum) = foldl stats_step (PInf, NInf, 0) (ht_values this);
          mean = (if length (ht_values this) \<noteq> 0 then sum / number_of_nat (length (ht_values this)) else 0);
          lines = [];
          lines = lines @ [ustr ''id='' @ toString h (ht_id this)];
          lines = lines @ [ustr ''name='' @ ht_name this];
          lines = lines @ [ustr ''tag='' @ tag (ht_meta this)];
          lines = lines @ [ustr ''len='' @ toString h (number_of_nat (length (ht_values this)))];
          lines = lines @ [ustr ''bias='' @ toFixed6 h (ht_bias this)];
          lines = lines @ [ustr ''scale='' @ toFixed6 h (ht_scale this)];
          lines = lines @ [ustr ''min='' @ toFixed6 h min];
          lines = lines @ [ustr ''max='' @ toFixed6 h max];
          lines = lines @ [ustr ''mean='' @ toFixed6 h mean];
          ck = HeavyThing_checksum this;
          lines = lines @ [ustr ''checksum='' @ toString h ck];
          decorated = decorate lines
      in join_lines decorated)"

definition HeavyThing_scramble :: "HeavyThing \<Rightarrow> number \<Rightarrow> HeavyThing" where
  "HeavyThing_scramble this seed =
     (let x = seed_or 2463534242 seed;
          x = (xorshift32 ^^ 8) x;
          (x, vs) = scramble_loop 0 x (ht_values this);
          this = this\<lparr>ht_values := vs\<rparr>;
          this = this\<lparr>ht_bias := ht_bias this + (number_of_int (sint (x AND 255)) - lit 128) * lit 0.000001\<rparr>;
          this = this\<lparr>ht_scale := ht_scale this * (1 + (number_of_int (sint (drop_bit 8 x AND 255)) - lit 128) * lit 0.000001)\<rparr>
      in this)"

definition HeavyThing_simulate :: "HeavyThing \<Rightarrow> number \<Rightarrow> number \<times> HeavyThing" where
  "HeavyThing_simulate this iterations =
     (let steps = steps_of iterations;
          n = length (ht_values this)
      in if n = 0 then (0, this)
         else let temp = new_Array n;
                  (vs, temp) = simulate_loop steps (ht_scale this) (ht_bias this) n (ht_values this, temp);
                  this = this\<lparr>ht_values := vs\<rparr>
              in (energy_of (ht_values this), this))"

section \<open>The closure factory (\<open>heavyFactory.ts\<close>)\<close>

text \<open>
  \<open>createHeavyThing\<close> returns six closures over the variables \<open>_id\<close>, \<open>_name\<close>,
  \<open>_values\<close>, \<open>_bias\<close>, \<open>_scale\<close> and \<open>_meta\<close> of one call. The record is that
  environment; each closure reads and assigns its variables.
\<close>

record closure =
  c_id :: number
  c_name :: jsstring
  c_values :: "number list"
  c_bias :: number
  c_scale :: number
  c_meta :: meta

definition createHeavyThing ::
  "number \<Rightarrow> number \<Rightarrow> jsstring \<Rightarrow> number list \<Rightarrow> number \<Rightarrow> number \<Rightarrow> jsstring \<Rightarrow> closure" where
  "createHeavyThing now id0 name values bias scale tag0 =
     \<lparr>c_id = id0, c_name = name, c_values = values, c_bias = bias, c_scale = scale,
      c_meta = \<lparr>createdAt = now, tag = tag0\<rparr>\<rparr>"

definition factory_checksum :: "closure \<Rightarrow> number" where
  "factory_checksum env =
     (let hash = (2166136261 :: int32);
          running = (0 :: number);
          (hash, running) = foldl (fnv_step (c_scale env) (c_bias env)) (hash, running) (c_values env);
          hash = hash XOR to_int32 (c_id env);
          hash = hash * 16777619;
          hash = hash XOR to_int32 (number_of_nat (length (c_name env)));
          hash = hash * 16777619;
          ts = to_int32 (createdAt (c_meta env));
          hash = hash XOR ts;
          hash = hash * 2246822519;
          hash = foldl tag_step hash (tag (c_meta env));
          hash = avalanche hash
      in number_of_int (sint hash))"

definition factory_normalizeInPlace :: "closure \<Rightarrow> closure" where
  "factory_normalizeInPlace env =
     (let sum = sum_values (c_values env);
          mean = (if 0 < length (c_values env) then sum / number_of_nat (length (c_values env)) else 0);
          sq = sq_values mean (c_values env);
          variance = (if 1 < length (c_values env) then sq / number_of_nat (length (c_values env) - 1) else 0);
          std = (if 0 < variance then Math_sqrt variance else 1);
          env = env\<lparr>c_values := normalize_loop mean std 0 (c_values env)\<rparr>;
          env = env\<lparr>c_bias := c_bias env * lit 0.9 + mean * lit 0.1\<rparr>;
          env = env\<lparr>c_scale := c_scale env * lit 0.9 + (1 / (std + epsilon)) * lit 0.1\<rparr>
      in env)"

definition factory_rollingAverage :: "closure \<Rightarrow> number \<Rightarrow> number list" where
  "factory_rollingAverage env windowSize =
     (let n = length (c_values env);
          w = window n windowSize;
          output = new_Array n;
          running = 0;
          output = average_loop n w (c_values env) 0 running output;
          output = adjust_loop n (c_scale env) (c_bias env) 0 output
      in output)"

definition factory_formatSummary :: "host \<Rightarrow> closure \<Rightarrow> jsstring" where
  "factory_formatSummary h env =
     (let (min, max, sum) = foldl stats_step (PInf, NInf, 0) (c_values env);
          mean = (if length (c_values env) \<noteq> 0 then sum / number_of_nat (length (c_values env)) else 0);
          lines = [];
          lines = lines @ [ustr ''id='' @ toString h (c_id env)];
          lines = lines @ [ustr ''name='' @ c_name env];
          lines = lines @ [ustr ''tag='' @ tag (c_meta env)];
          lines = lines @ [ustr ''len='' @ toString h (number_of_nat (length (c_values env)))];
          lines = lines @ [ustr ''bias='' @ toFixed6 h (c_bias env)];
          lines = lines @ [ustr ''scale='' @ toFixed6 h (c_scale env)];
          lines = lines @ [ustr ''min='' @ toFixed6 h min];
          lines = lines @ [ustr ''max='' @ toFixed6 h max];
          lines = lines @ [ustr ''mean='' @ toFixed6 h mean];
          ck = factory_checksum env;
          lines = lines @ [ustr ''checksum='' @ toString h ck];
          decorated = decorate lines
      in join_lines decorated)"

definition factory_scramble :: "closure \<Rightarrow> number \<Rightarrow> closure" where
  "factory_scramble env seed =
     (let x = seed_or 2463534242 seed;
          x = (xorshift32 ^^ 8) x;
          (x, vs) = scramble_loop 0 x (c_values env);
          env = env\<lparr>c_values := vs\<rparr>;
          env = env\<lparr>c_bias := c_bias env + (number_of_int (sint (x AND 255)) - lit 128) * lit 0.000001\<rparr>;
          env = env\<lparr>c_scale := c_scale env * (1 + (number_of_int (sint (drop_bit 8 x AND 255)) - lit 128) * lit 0.000001)\<rparr>
      in env)"

definition factory_simulate :: "closure \<Rightarrow> number \<Rightarrow> number \<times> closure" where
  "factory_simulate env iterations =
     (let steps = steps_of iterations;
          n = length (c_values env)
      in if n = 0 then (0, env)
         else let temp = new_Array n;
                  (vs, temp) = simulate_loop steps (c_scale env) (c_bias env) n (c_values env, temp);
                  env = env\<lparr>c_values := vs\<rparr>
              in (energy_of (c_values env), env))"

section \<open>The thin factory (\<open>heavyFactoryThin.ts\<close>)\<close>

definition createHeavyThingThin ::
  "number \<Rightarrow> number \<Rightarrow> jsstring \<Rightarrow> number list \<Rightarrow> number \<Rightarrow> number \<Rightarrow> jsstring \<Rightarrow> ThinState" where
  "createHeavyThingThin now id0 name values bias scale tag0 =
     \<lparr>thin_id = id0, thin_name = name, thin_values = values, thin_bias = bias,
      thin_scale = scale, thin_createdAt = now, thin_tag = tag0\<rparr>"

section \<open>The prototype factory (\<open>heavyFactoryPrototype.ts\<close>)\<close>

record State =
  p_id :: number
  p_name :: jsstring
  p_values :: "number list"
  p_bias :: number
  p_scale :: number
  p_createdAt :: number
  p_tag :: jsstring

definition createHeavyThingPrototype ::
  "number \<Rightarrow> number \<Rightarrow> jsstring \<Rightarrow> number list \<Rightarrow> number \<Rightarrow> number \<Rightarrow> jsstring \<Rightarrow> State" where
  "createHeavyThingPrototype now id0 name values bias scale tag0 =
     \<lparr>p_id = id0, p_name = name, p_values = values, p_bias = bias,
      p_scale = scale, p_createdAt = now, p_tag = tag0\<rparr>"

definition proto_checksum :: "State \<Rightarrow> number" where
  "proto_checksum this =
     (let hash = (2166136261 :: int32);
          running = (0 :: number);
          (hash, running) = foldl (fnv_step (p_scale this) (p_bias this)) (hash, running) (p_values this);
          hash = hash XOR to_int32 (p_id this);
          hash = hash * 16777619;
          hash = hash XOR to_int32 (number_of_nat (length (p_name this)));
          hash = hash * 16777619;
          ts = to_int32 (p_createdAt this);
          hash = hash XOR ts;
          hash = hash * 2246822519;
          hash = foldl tag_step hash (p_tag this);
          hash = avalanche hash
      in number_of_int (sint hash))"

definition proto_normalizeInPlace :: "State \<Rightarrow> State" where
  "proto_normalizeInPlace this =
     (let sum = sum_values (p_values this);
          mean = (if 0 < length (p_values this) then sum / number_of_nat (length (p_values this)) else 0);
          sq = sq_values mean (p_values this);
          variance = (if 1 < length (p_values this) then sq / number_of_nat (length (p_values this) - 1) else 0);
          std = (if 0 < variance then Math_sqrt variance else 1);
          this = this\<lparr>p_values := normalize_loop mean std 0 (p_values this)\<rparr>;
          this = this\<lparr>p_bias := p_bias this * lit 0.9 + mean * lit 0.1\<rparr>;
          this = this\<lparr>p_scale := p_scale this * lit 0.9 + (1 / (std + epsilon)) * lit 0.1\<rparr>
      in this)"

definition proto_rollingAverage :: "State \<Rightarrow> number \<Rightarrow> number list" where
  "proto_rollingAverage this windowSize =
     (let n = length (p_values this);
          w = window n windowSize;
          output = new_Array n;
          running = 0;
          output = average_loop n w (p_values this) 0 running output;
          output = adjust_loop n (p_scale this) (p_bias this) 0 output
      in output)"

definition proto_formatSummary :: "host \<Rightarrow> State \<Rightarrow> jsstring" where
  "proto_formatSummary h this =
     (let (min, max, sum) = foldl stats_step (PInf, NInf, 0) (p_values this);
          mean = (if length (p_values this) \<noteq> 0 then sum / number_of_nat (length (p_values this)) else 0);
          lines = [];
          lines = lines @ [ustr ''id='' @ toString h (p_id this)];
          lines = lines @ [ustr ''name='' @ p_name this];
          lines = lines @ [ustr ''tag='' @ p_tag this];
          lines = lines @ [ustr ''len='' @ toString h (number_of_nat (length (p_values this)))];
          lines = lines @ [ustr ''bias='' @ toFixed6 h (p_bias this)];
          lines = lines @ [ustr ''scale='' @ toFixed6 h (p_scale this)];
          lines = lines @ [ustr ''min='' @ toFixed6 h min];
          lines = lines @ [ustr ''max='' @ toFixed6 h max];
          lines = lines @ [ustr ''mean='' @ toFixed6 h mean];
          ck = proto_checksum this;
          lines = lines @ [ustr ''checksum='' @ toString h ck];
          decorated = decorate lines
      in join_lines decorated)"

definition proto_scramble :: "State \<Rightarrow> number \<Rightarrow> State" where
  "proto_scramble this seed =
     (let x = seed_or 2463534242 seed;
          x = (xorshift32 ^^ 8) x;
          (x, vs) = scramble_loop 0 x (p_values this);
          this = this\<lparr>p_values := vs\<rparr>;
          this = this\<lparr>p_bias := p_bias this + (number_of_int (sint (x AND 255)) - lit 128) * lit 0.000001\<rparr>;
          this = this\<lparr>p_scale := p_scale this * (1 + (number_of_int (sint (drop_bit 8 x AND 255)) - lit 128) * lit 0.000001)\<rparr>
      in this)"

definition proto_simulate :: "State \<Rightarrow> number \<Rightarrow> number \<times> State" where
  "proto_simulate this iterations =
     (let steps = steps_of iterations;
          n = length (p_values this)
      in if n = 0 then (0, this)
         else let temp = new_Array n;
                  (vs, temp) = simulate_loop steps (p_scale this) (p_bias this) n (p_values this, temp);
                  this = this\<lparr>p_values := vs\<rparr>
              in (energy_of (p_values this), this))"

section \<open>Instances and calls\<close>

text \<open>
  A \<open>HeavyThingLike\<close> is an object of one of the four kinds. A call of one of its six
  methods returns a value and leaves the object in a new state.
\<close>

datatype HeavyThingLike =
    ClassInst HeavyThing
  | FactoryInst closure
  | ThinInst ThinState
  | ProtoInst State

datatype call =
    Checksum
  | NormalizeInPlace
  | RollingAverage number
  | FormatSummary
  | Scramble number
  | Simulate number

datatype retval = RNumber number | RVoid | RArray "number list" | RString jsstring

fun invoke :: "host \<Rightarrow> call \<Rightarrow> HeavyThingLike \<Rightarrow> retval \<times> HeavyThingLike" where
  "invoke h Checksum (ClassInst this) = (RNumber (HeavyThing_checksum this), ClassInst this)"
| "invoke h NormalizeInPlace (ClassInst this) = (RVoid, ClassInst (HeavyThing_normalizeInPlace this))"
| "invoke h (RollingAverage w) (ClassInst this) = (RArray (HeavyThing_rollingAverage this w), ClassInst this)"
| "invoke h FormatSummary (ClassInst this) = (RString (HeavyThing_formatSummary h this), ClassInst this)"
| "invoke h (Scramble seed) (ClassInst this) = (RVoid, ClassInst (HeavyThing_scramble this seed))"
| "invoke h (Simulate k) (ClassInst this) =
     (let (energy, this) = HeavyThing_simulate this k in (RNumber energy, ClassInst this))"
| "invoke h Checksum (FactoryInst env) = (RNumber (factory_checksum env), FactoryInst env)"
| "invoke h NormalizeInPlace (FactoryInst env) = (RVoid, FactoryInst (factory_normalizeInPlace env))"
| "invoke h (RollingAverage w) (FactoryInst env) = (RArray (factory_rollingAverage env w), FactoryInst env)"
| "invoke h FormatSummary (FactoryInst env) = (RString (factory_formatSummary h env), FactoryInst env)"
| "invoke h (Scramble seed) (FactoryInst env) = (RVoid, FactoryInst (factory_scramble env seed))"
| "invoke h (Simulate k) (FactoryInst env) =
     (let (energy, env) = factory_simulate env k in (RNumber energy, FactoryInst env))"
| "invoke h Checksum (ThinInst state) = (RNumber (doChecksum state), ThinInst state)"
| "invoke h NormalizeInPlace (ThinInst state) = (RVoid, ThinInst (doNormalizeInPlace state))"
| "invoke h (RollingAverage w) (ThinInst state) = (RArray (doRollingAverage state w), ThinInst state)"
| "invoke h FormatSummary (ThinInst state) = (RString (doFormatSummary h state), ThinInst state)"
| "invoke h (Scramble seed) (ThinInst state) = (RVoid, ThinInst (doScramble state seed))"
| "invoke h (Simulate k) (ThinInst state) =
     (let (energy, state) = doSimulate state k in (RNumber energy, ThinInst state))"
| "invoke h Checksum (ProtoInst this) = (RNumber (proto_checksum this), ProtoInst this)"
| "invoke h NormalizeInPlace (ProtoInst this) = (RVoid, ProtoInst (proto_normalizeInPlace this))"
| "invoke h (RollingAverage w) (ProtoInst this) = (RArray (proto_rollingAverage this w), ProtoInst this)"
| "invoke h FormatSummary (ProtoInst this) = (RString (proto_formatSummary h this), ProtoInst this)"
| "invoke h (Scramble seed) (ProtoInst this) = (RVoid, ProtoInst (proto_scramble this seed))"
| "invoke h (Simulate k) (ProtoInst this) =
     (let (energy, this) = proto_simulate this k in (RNumber energy, ProtoInst this))"

fun run_calls :: "host \<Rightarrow> call list \<Rightarrow> HeavyThingLike \<Rightarrow> retval list \<times> HeavyThingLike" where
  "run_calls h [] obj = ([], obj)"
| "run_calls h (c # cs) obj =
     (let (r, obj) = invoke h c obj;
          (rs, obj) = run_calls h cs obj
      in (r # rs, obj))"

text \<open>What an instance holds, whatever its kind: the state record of the specification.\<close>

fun state_of :: "HeavyThingLike \<Rightarrow> ThinState" where
  "state_of (ClassInst this) =
     \<lparr>thin_id = ht_id this, thin_name = ht_name this, thin_values = ht_values this,
      thin_bias = ht_bias this, thin_scale = ht_scale this,
      thin_createdAt = createdAt (ht_meta this), thin_tag = tag (ht_meta this)\<rparr>"
| "state_of (FactoryInst env) =
     \<lparr>thin_id = c_id env, thin_name = c_name env, thin_values = c_values env,
      thin_bias = c_bias env, thin_scale = c_scale env,
      thin_createdAt = createdAt (c_meta env), thin_tag = tag (c_meta env)\<rparr>"
| "state_of (ThinInst state) = state"
| "state_of (ProtoInst this) =
     \<lparr>thin_id = p_id this, thin_name = p_name this, thin_values = p_values this,
      thin_bias = p_bias this, thin_scale = p_scale this,
      thin_createdAt = p_createdAt this, thin_tag = p_tag this\<rparr>"


section \<open>The population (\<open>makeInstances.ts\<close>)\<close>

datatype error = RangeError | TypeError

function generate_loop :: "nat \<Rightarrow> nat \<Rightarrow> int32 \<Rightarrow> number list \<Rightarrow> number list" where
  "generate_loop len i x values =
     (if i < len then
        let x = xorshift32 x;
            rnd = number_of_nat (unat x) / lit 4294967295
        in generate_loop len (i + 1) x (values[i := (rnd - lit 0.5) * lit 2])
      else values)"
  by pat_completeness auto
termination
  by (relation "measure (\<lambda>(len, i, x, values). len - i)") auto

declare generate_loop.simps [simp del]

definition generateInitialValues :: "number \<Rightarrow> nat \<Rightarrow> number list" where
  "generateInitialValues seed len =
     (let values = new_Array len;
          x = seed_or 123456789 seed
      in generate_loop len 0 x values)"

definition make_instance :: "jsstring \<Rightarrow> number \<Rightarrow> nat \<Rightarrow> HeavyThingLike" where
  \<comment> \<open>the body of the loop of \<open>makeInstances\<close> at index \<open>i\<close>; \<open>now\<close> is the clock's reading\<close>
  "make_instance approach now i =
     (let id0 = number_of_nat (i + 1);
          name = ustr ''obj_'' @ toString16 (i + 1);
          tag0 = (if i mod 3 = 0 then ustr ''alpha''
                  else if i mod 3 = 1 then ustr ''beta'' else ustr ''gamma'');
          values = generateInitialValues id0 64;
          bias = number_of_nat (i mod 7) * lit 0.01;
          scale = 1 + number_of_nat (i mod 5) * lit 0.01
      in if approach = ustr ''class'' then ClassInst (new_HeavyThing now id0 name values bias scale tag0)
         else if approach = ustr ''factory'' then FactoryInst (createHeavyThing now id0 name values bias scale tag0)
         else ThinInst (createHeavyThingThin now id0 name values bias scale tag0))"

function make_loop ::
  "jsstring \<Rightarrow> (nat \<Rightarrow> number) \<Rightarrow> nat \<Rightarrow> nat \<Rightarrow> HeavyThingLike option list \<times> HeavyThingLike list
     \<Rightarrow> HeavyThingLike option list \<times> HeavyThingLike list" where
  "make_loop approach clock count0 i (out, retainedInstances) =
     (if i < count0 then
        let inst = make_instance approach (clock i) i
        in make_loop approach clock count0 (i + 1) (out[i := Some inst], retainedInstances @ [inst])
      else (out, retainedInstances))"
  by pat_completeness auto
termination
  by (relation "measure (\<lambda>(approach, clock, count0, i, acc). count0 - i)") auto

declare make_loop.simps [simp del]

fun checksum_of :: "HeavyThingLike \<Rightarrow> number" where
  \<comment> \<open>\<open>inst.checksum()\<close>\<close>
  "checksum_of (ClassInst this) = HeavyThing_checksum this"
| "checksum_of (FactoryInst env) = factory_checksum env"
| "checksum_of (ThinInst state) = doChecksum state"
| "checksum_of (ProtoInst this) = proto_checksum this"

function touch_loop :: "nat \<Rightarrow> nat \<Rightarrow> HeavyThingLike option list \<Rightarrow> error + unit" where
  "touch_loop touchCount i out =
     (if i < touchCount then
        (case out ! i of
           None \<Rightarrow> Inl TypeError
         | Some inst \<Rightarrow> let ck = checksum_of inst in touch_loop touchCount (i + 1) out)
      else Inr ())"
  by pat_completeness auto
termination
  by (relation "measure (\<lambda>(touchCount, i, out). touchCount - i)") auto

declare touch_loop.simps [simp del]

text \<open>
  \<open>makeInstances\<close> takes the approach as the string it is at run time and the count
  as the non-negative integer \<open>main\<close> passes. \<open>clock i\<close> is what \<open>Date.now()\<close>
  returns when instance \<open>i\<close> is constructed. The array \<open>out\<close> starts with \<open>count\<close>
  empty slots; \<open>new Array(count)\<close> throws a RangeError from \<open>2 ^ 32\<close> on. The result
  is the returned array, or the error thrown, and the module's \<open>retainedInstances\<close>.
\<close>

definition makeInstances ::
  "(nat \<Rightarrow> number) \<Rightarrow> jsstring \<Rightarrow> nat \<Rightarrow> HeavyThingLike list
     \<Rightarrow> (error + HeavyThingLike option list) \<times> HeavyThingLike list" where
  "makeInstances clock approach count0 retainedInstances =
     (if 2 ^ 32 \<le> count0 then (Inl RangeError, retainedInstances)
      else let out = replicate count0 None;
               (out, retainedInstances) = make_loop approach clock count0 0 (out, retainedInstances);
               touchCount = min 10 (length out)
           in case touch_loop touchCount 0 out of
                Inl e \<Rightarrow> (Inl e, retainedInstances)
              | Inr u \<Rightarrow> (Inr out, retainedInstances))"

section \<open>The command line (\<open>main.ts\<close>)\<close>

record CliOptions =
  approach :: jsstring
  count :: number

definition valid_approach :: "jsstring \<Rightarrow> bool" where
  "valid_approach val =
     (val = ustr ''class'' \<or> val = ustr ''factory'' \<or> val = ustr ''factory-thin''
      \<or> val = ustr ''factory-prototype'')"

fun parse_loop ::
  "host \<Rightarrow> jsstring list \<Rightarrow> jsstring option \<times> number option \<Rightarrow> jsstring option \<times> number option" where
  "parse_loop h [] (approach0, count0) = (approach0, count0)"
| "parse_loop h [a] (approach0, count0) = (approach0, count0)"
| "parse_loop h (a # b # rest) (approach0, count0) =
     (if a = ustr ''--approach'' then
        parse_loop h rest (if valid_approach b then Some b else approach0, count0)
      else if a = ustr ''--count'' then
        (let n = Number h b
         in parse_loop h rest (approach0, if isFinite n \<and> 0 < n then Some (Math_floor n) else count0))
      else parse_loop h (b # rest) (approach0, count0))"

definition falsy :: "number \<Rightarrow> bool" where
  "falsy x = (x = Fin 0 \<or> x = NaN)"

definition parseArgs :: "host \<Rightarrow> jsstring list \<Rightarrow> CliOptions option" where
  "parseArgs h argv =
     (case parse_loop h argv (None, None) of
        (Some a, Some c) \<Rightarrow> if a = [] \<or> falsy c then None else Some \<lparr>approach = a, count = c\<rparr>
      | _ \<Rightarrow> None)"

section \<open>The snapshot (\<open>snapshot.ts\<close>)\<close>

text \<open>
  \<open>takeHeapSnapshot\<close> awaits three requests to the inspector session, one after the
  other; each calls back with an error or without. What the profiler answers is the
  input: the error of each request, if any, and the messages it emits while the capture
  runs. The state is what the session and the output stream are left in, the chunks
  written so far, and the sequence of actions taken. The promise returned settles with
  \<open>None\<close> when it resolves and with the error when it rejects. Awaiting
  \<open>output.end\<close> only ever resolves.
\<close>

datatype payload = Text jsstring | Bytes "8 word list" | Other

record message =
  chunk :: "payload option"
  params_chunk :: "payload option"

record profiler =
  enable_err :: "jsstring option"
  emitted :: "message list"
  capture_err :: "jsstring option"
  disable_err :: "jsstring option"

datatype action =
    Connect | CreateWriteStream | On | PostEnable | PostTakeHeapSnapshot | Write payload
  | CaptureResolved | Off | End | PostDisable | Disconnect

record snapshot_state =
  connected :: bool
  enabled :: bool
  listening :: bool
  stream_open :: bool
  written :: "payload list"
  actions :: "action list"

definition act :: "action \<Rightarrow> snapshot_state \<Rightarrow> snapshot_state" where
  "act a s = s\<lparr>actions := actions s @ [a]\<rparr>"

definition output_write :: "payload \<Rightarrow> snapshot_state \<Rightarrow> snapshot_state" where
  "output_write c s = act (Write c) (s\<lparr>written := written s @ [c]\<rparr>)"

definition onChunk :: "message \<Rightarrow> snapshot_state \<Rightarrow> snapshot_state" where
  "onChunk m s =
     (let c = (case chunk m of Some p \<Rightarrow> Some p | None \<Rightarrow> params_chunk m)
      in case c of
           Some (Text t) \<Rightarrow> output_write (Text t) s
         | Some (Bytes b) \<Rightarrow> output_write (Bytes b) s
         | _ \<Rightarrow> s)"

definition emit :: "message list \<Rightarrow> snapshot_state \<Rightarrow> snapshot_state" where
  \<comment> \<open>the session delivers each message to the handler while it is registered\<close>
  "emit ms s = foldl (\<lambda>s m. if listening s then onChunk m s else s) s ms"

definition idle :: snapshot_state where
  "idle = \<lparr>connected = False, enabled = False, listening = False, stream_open = False,
           written = [], actions = []\<rparr>"

definition takeHeapSnapshot :: "profiler \<Rightarrow> jsstring option \<times> snapshot_state" where
  "takeHeapSnapshot p =
     (let s = act Connect (idle\<lparr>connected := True\<rparr>);
          s = act CreateWriteStream (s\<lparr>stream_open := True\<rparr>);
          s = act On (s\<lparr>listening := True\<rparr>);
          s = act PostEnable s
      in case enable_err p of
           Some err \<Rightarrow> (Some err, s)
         | None \<Rightarrow>
            (let s = s\<lparr>enabled := True\<rparr>;
                 s = act PostTakeHeapSnapshot s;
                 s = emit (emitted p) s
             in case capture_err p of
                  Some err \<Rightarrow> (Some err, s)
                | None \<Rightarrow>
                   (let s = act CaptureResolved s;
                        s = act Off (s\<lparr>listening := False\<rparr>);
                        s = act End (s\<lparr>stream_open := False\<rparr>);
                        s = act PostDisable s
                    in case disable_err p of
                         Some err \<Rightarrow> (Some err, s)
                       | None \<Rightarrow>
                          (let s = s\<lparr>enabled := False\<rparr>;
                               s = act Disconnect (s\<lparr>connected := False\<rparr>)
                           in (None, s)))))"


section \<open>Notions used to state the properties\<close>

text \<open>
  The draw \<open>(x >>> 0) / 0xffffffff\<close> of the two generators, the mean and the standard
  deviation that \<open>normalizeInPlace\<close> computes, and the perturbation that \<open>scramble\<close>
  adds at an index, each as a function of what it depends on.
\<close>

definition unit_draw :: "int32 \<Rightarrow> number" where
  "unit_draw x = number_of_nat (unat x) / lit 4294967295"

definition initial_value :: "int32 \<Rightarrow> number" where
  "initial_value x = (unit_draw x - lit 0.5) * lit 2"

definition norm_mean :: "number list \<Rightarrow> number" where
  "norm_mean vs = (if 0 < length vs then sum_values vs / number_of_nat (length vs) else 0)"

definition norm_std :: "number list \<Rightarrow> number" where
  "norm_std vs =
     (let sq = sq_values (norm_mean vs) vs;
          variance = (if 1 < length vs then sq / number_of_nat (length vs - 1) else 0)
      in if 0 < variance then Math_sqrt variance else 1)"

definition clamp8 :: "number \<Rightarrow> number" where
  "clamp8 x = Math_max (- lit 8) (Math_min (lit 8) x)"

definition scramble_start :: "number \<Rightarrow> int32" where
  \<comment> \<open>the generator after seeding and the eight warm-up rounds\<close>
  "scramble_start seed = (xorshift32 ^^ 8) (seed_or 2463534242 seed)"

definition scramble_delta :: "nat \<Rightarrow> int32 \<Rightarrow> number" where
  \<comment> \<open>what is added to \<open>values[i]\<close> when the round for index \<open>i\<close> has produced \<open>x\<close>\<close>
  "scramble_delta i x =
     (if x AND 1 = 0 then lit 1 else - lit 1)
       * (unit_draw x * lit 0.01 + number_of_nat (i mod 7) * lit 0.0001)"

definition is_double :: "number \<Rightarrow> bool" where
  \<comment> \<open>a finite number is one that binary64 represents\<close>
  "is_double x = (case x of Fin a \<Rightarrow> round64 a = Fin a | _ \<Rightarrow> True)"

fun adjacent_exact :: "number list \<Rightarrow> bool" where
  \<comment> \<open>adding the next value and taking the previous one away again loses nothing\<close>
  "adjacent_exact (a # b # rest) = ((a + b) - a = b \<and> adjacent_exact (b # rest))"
| "adjacent_exact [a] = True"
| "adjacent_exact [] = True"

definition bounded_by :: "real \<Rightarrow> number \<Rightarrow> bool" where
  \<comment> \<open>finite and of magnitude at most \<open>b\<close>\<close>
  "bounded_by b x = (case x of Fin a \<Rightarrow> \<bar>a\<bar> \<le> b | _ \<Rightarrow> False)"

section \<open>Rounding\<close>

text \<open>
  \<open>ilog2\<close> finds the binade of a positive real; rounding is odd, monotone, and
  exact on every real that is an integer of fewer than 54 bits times a power of two
  within the exponent range.
\<close>

lemma powi_nonneg_eq: "0 \<le> k \<Longrightarrow> (2::real) powi k = 2 ^ nat k"
  by (simp add: power_int_def)

lemma ilog2_bounds:
  assumes "0 < x"
  shows "2 powi (ilog2 x) \<le> x \<and> x < 2 powi (ilog2 x + 1)"
proof (cases "1 \<le> x")
  case True
  define n where "n = \<lfloor>x\<rfloor>"
  have n: "0 < n" "of_int n \<le> x" "x < of_int n + 1"
    using True by (auto simp: n_def)
  have b: "2 ^ nat (bitlen n - 1) \<le> n" "n < 2 ^ nat (bitlen n)"
    using bitlen_bounds [OF n(1)] by auto
  have bl: "1 \<le> bitlen n"
    using n(1) by (simp add: bitlen_ge_iff_power)
  have il: "ilog2 x = bitlen n - 1"
    using True by (simp add: ilog2_def n_def)
  have "(2::real) powi (bitlen n - 1) = 2 ^ nat (bitlen n - 1)"
    using bl by (simp add: powi_nonneg_eq)
  also have "\<dots> = of_int (2 ^ nat (bitlen n - 1))" by simp
  also have "\<dots> \<le> of_int n" using b(1) by (simp only: of_int_le_iff)
  finally have lo: "2 powi (bitlen n - 1) \<le> x" using n(2) by linarith
  have "n + 1 \<le> 2 ^ nat (bitlen n)" using b(2) by simp
  then have "real_of_int (n + 1) \<le> of_int (2 ^ nat (bitlen n))" by (simp only: of_int_le_iff)
  then have "x < 2 ^ nat (bitlen n)" using n(3) by simp
  moreover have "(2::real) powi (bitlen n - 1 + 1) = 2 ^ nat (bitlen n)"
    using bl by (simp add: powi_nonneg_eq)
  ultimately show ?thesis using lo il by simp
next
  case False
  define y where "y = 1 / x"
  define c where "c = \<lceil>y\<rceil>"
  have y: "1 < y" using False assms by (simp add: y_def)
  have c: "2 \<le> c" "y \<le> of_int c" "of_int c - 1 < y"
    using y by (auto simp: c_def) linarith+
  define b where "b = bitlen (c - 1)"
  have bb: "2 ^ nat (b - 1) \<le> c - 1" "c - 1 < 2 ^ nat b"
    using bitlen_bounds [of "c - 1"] c(1) by (auto simp: b_def)
  have bl: "1 \<le> b" using c(1) by (simp add: b_def bitlen_ge_iff_power)
  have il: "ilog2 x = - b"
    using False by (simp add: ilog2_def b_def c_def y_def)
  have "real_of_int (2 ^ nat (b - 1)) \<le> of_int (c - 1)" using bb(1) by (simp only: of_int_le_iff)
  then have ylo: "2 ^ nat (b - 1) < y" using c(3) by simp
  have "c \<le> 2 ^ nat b" using bb(2) by simp
  then have "real_of_int c \<le> of_int (2 ^ nat b)" by (simp only: of_int_le_iff)
  then have "real_of_int c \<le> 2 ^ nat b" by simp
  then have yhi: "y \<le> 2 ^ nat b" using c(2) by linarith
  have x: "x = 1 / y" using assms by (simp add: y_def)
  have p1: "(2::real) powi (- b) = 1 / 2 ^ nat b"
    using bl by (simp add: power_int_minus_divide powi_nonneg_eq)
  have p2: "(2::real) powi (- b + 1) = 1 / 2 ^ nat (b - 1)"
  proof -
    have "(2::real) powi (- b + 1) = 2 powi (- (b - 1))" by simp
    also have "\<dots> = 1 / 2 ^ nat (b - 1)"
      using bl by (simp only: power_int_minus_divide) (simp add: powi_nonneg_eq)
    finally show ?thesis .
  qed
  have "1 / 2 ^ nat b \<le> 1 / y" using yhi y by (simp add: frac_le)
  moreover have "1 / y < 1 / 2 ^ nat (b - 1)" using ylo by (simp add: frac_less2)
  ultimately show ?thesis using il p1 p2 x by simp
qed

lemma binade_unique:
  assumes "(2::real) powi e \<le> x" "x < 2 powi (e + 1)" "2 powi k \<le> x" "x < 2 powi (k + 1)"
  shows "e = k"
proof (rule ccontr)
  assume "e \<noteq> k"
  then consider "e + 1 \<le> k" | "k + 1 \<le> e" by linarith
  then show False
  proof cases
    case 1
    then have "(2::real) powi (e + 1) \<le> 2 powi k" by (intro power_int_increasing) auto
    with assms show False by linarith
  next
    case 2
    then have "(2::real) powi (k + 1) \<le> 2 powi e" by (intro power_int_increasing) auto
    with assms show False by linarith
  qed
qed

lemma ilog2_eqI:
  assumes "(2::real) powi e \<le> x" "x < 2 powi (e + 1)"
  shows "ilog2 x = e"
proof -
  have "0 < x" using assms(1) zero_less_power_int [of "2::real" e] by linarith
  from ilog2_bounds [OF this] assms show ?thesis
    using binade_unique by blast
qed

lemma ilog2_mono:
  assumes "0 < x" "x \<le> y"
  shows "ilog2 x \<le> ilog2 y"
proof (rule ccontr)
  assume "\<not> ilog2 x \<le> ilog2 y"
  then have "ilog2 y + 1 \<le> ilog2 x" by simp
  then have "(2::real) powi (ilog2 y + 1) \<le> 2 powi (ilog2 x)" by (intro power_int_increasing) auto
  moreover have "0 < y" using assms by simp
  ultimately show False
    using ilog2_bounds [OF assms(1)] ilog2_bounds [OF \<open>0 < y\<close>] assms(2) by linarith
qed


lemma rhe_of_int [simp]: "rhe (of_int n) = n"
  by (simp add: rhe_def)

lemma rhe_lower: "\<lfloor>y\<rfloor> \<le> rhe y"
  by (simp add: rhe_def Let_def)

lemma rhe_upper: "rhe y \<le> \<lfloor>y\<rfloor> + 1"
  by (simp add: rhe_def Let_def)

lemma rhe_mono:
  assumes "x \<le> y"
  shows "rhe x \<le> rhe y"
proof (cases "\<lfloor>x\<rfloor> = \<lfloor>y\<rfloor>")
  case True
  then show ?thesis using assms by (auto simp: rhe_def Let_def)
next
  case False
  then have "\<lfloor>x\<rfloor> + 1 \<le> \<lfloor>y\<rfloor>" using floor_mono [OF assms] by linarith
  then show ?thesis using rhe_upper [of x] rhe_lower [of y] by linarith
qed

lemma rhe_uminus: "rhe (- y) = - rhe y"
proof (cases "y = of_int \<lfloor>y\<rfloor>")
  case True
  then obtain n where "y = of_int n" ..
  then have "- y = of_int (- n)" by simp
  then show ?thesis using \<open>y = of_int n\<close> by (simp only: rhe_of_int)
next
  case False
  define f0 where "f0 = \<lfloor>y\<rfloor>"
  define d where "d = y - of_int f0"
  have d: "0 < d" "d < 1"
    using False by (simp_all add: d_def f0_def less_le) linarith
  have "\<lceil>y\<rceil> = f0 + 1" using False by (simp add: ceiling_altdef f0_def)
  then have f: "\<lfloor>- y\<rfloor> = - f0 - 1" by (simp add: ceiling_def)
  have eq: "- y - of_int (- f0 - 1) = 1 - d" by (simp add: d_def)
  have L: "rhe (- y) = (if 1 - d < 1/2 then - f0 - 1 else if 1/2 < 1 - d then - f0
                        else if even (- f0 - 1) then - f0 - 1 else - f0)"
    unfolding rhe_def Let_def f eq by simp
  have R: "rhe y = (if d < 1/2 then f0 else if 1/2 < d then f0 + 1
                    else if even f0 then f0 else f0 + 1)"
    unfolding rhe_def Let_def f0_def [symmetric] d_def [symmetric] by simp
  show ?thesis unfolding L R using d by auto
qed

lemma ulp_exp_uminus [simp]: "ulp_exp (- x) = ulp_exp x"
  by (simp add: ulp_exp_def)

lemma round_real_uminus: "round_real (- x) = - round_real x"
  by (simp add: round_real_def Let_def rhe_uminus)

lemma round_real_nonneg:
  assumes "0 \<le> x"
  shows "0 \<le> round_real x"
proof -
  have "0 \<le> x / 2 powi ulp_exp x" using assms by simp
  then have "rhe 0 \<le> rhe (x / 2 powi ulp_exp x)" by (rule rhe_mono)
  then have "0 \<le> rhe (x / 2 powi ulp_exp x)" using rhe_of_int [of 0] by simp
  then show ?thesis by (simp add: round_real_def Let_def)
qed

lemma ulp_exp_mono:
  assumes "0 < x" "x \<le> y"
  shows "ulp_exp x \<le> ulp_exp y"
  using ilog2_mono [of "\<bar>x\<bar>" "\<bar>y\<bar>"] assms by (simp add: ulp_exp_def)

lemma round_real_pos_mono:
  assumes "0 < x" "x \<le> y"
  shows "round_real x \<le> round_real y"
proof -
  define ex where "ex = ulp_exp x"
  define ey where "ey = ulp_exp y"
  have y: "0 < y" using assms by simp
  have rx: "round_real x = of_int (rhe (x / 2 powi ex)) * 2 powi ex"
    using assms by (simp add: round_real_def ex_def Let_def)
  have ry: "round_real y = of_int (rhe (y / 2 powi ey)) * 2 powi ey"
    using y by (simp add: round_real_def ey_def Let_def)
  have le: "ex \<le> ey" unfolding ex_def ey_def by (rule ulp_exp_mono [OF assms])
  have px: "(0::real) < 2 powi ex" and py: "(0::real) < 2 powi ey" by simp_all
  show ?thesis
  proof (cases "ex = ey")
    case True
    have "x / 2 powi ex \<le> y / 2 powi ex" using assms px by (simp add: divide_right_mono)
    then have "rhe (x / 2 powi ex) \<le> rhe (y / 2 powi ex)" by (rule rhe_mono)
    then have "real_of_int (rhe (x / 2 powi ex)) \<le> of_int (rhe (y / 2 powi ex))" by simp
    then show ?thesis using px unfolding rx ry True [symmetric]
      by (intro mult_right_mono) auto
  next
    case False
    then have lt: "ex + 1 \<le> ey" using le by simp
    have bx: "x < 2 powi (ilog2 x + 1)" using ilog2_bounds [OF assms(1)] by simp
    have "ilog2 x - 52 \<le> ex" using assms by (simp add: ex_def ulp_exp_def)
    then have "ilog2 x + 1 \<le> ex + 53" by simp
    then have "(2::real) powi (ilog2 x + 1) \<le> 2 powi (ex + 53)" by (intro power_int_increasing) auto
    then have "x < 2 powi (ex + 53)" using bx by linarith
    also have "(2::real) powi (ex + 53) = 2 powi ex * 2 ^ 53"
      by (simp add: power_int_add)
    finally have "x / 2 powi ex < 2 ^ 53" using px by (simp add: field_simps)
    then have "x / 2 powi ex \<le> of_int (2 ^ 53)" by simp
    then have "rhe (x / 2 powi ex) \<le> rhe (of_int (2 ^ 53))" by (rule rhe_mono)
    then have "rhe (x / 2 powi ex) \<le> 2 ^ 53" by (simp only: rhe_of_int)
    then have "real_of_int (rhe (x / 2 powi ex)) \<le> of_int (2 ^ 53)" by (simp only: of_int_le_iff)
    then have "real_of_int (rhe (x / 2 powi ex)) \<le> 2 ^ 53" by simp
    then have "round_real x \<le> 2 ^ 53 * 2 powi ex" unfolding rx using px
      by (intro mult_right_mono) auto
    also have "\<dots> = 2 powi (ex + 53)" by (simp add: power_int_add)
    also have "\<dots> \<le> 2 powi (ey + 52)" using lt by (intro power_int_increasing) auto
    finally have ux: "round_real x \<le> 2 powi (ey + 52)" .
    have "- 1074 \<le> ex" by (simp add: ex_def ulp_exp_def)
    then have "- 1074 < ey" using lt by simp
    then have ey: "ey = ilog2 y - 52" using y by (simp add: ey_def ulp_exp_def max_def split: if_splits)
    have "2 powi (ilog2 y) \<le> y" using ilog2_bounds [OF y] by simp
    then have "2 powi (ey + 52) \<le> y" by (simp add: ey)
    also have "(2::real) powi (ey + 52) = 2 powi ey * 2 ^ 52" by (simp add: power_int_add)
    finally have "2 ^ 52 \<le> y / 2 powi ey" using py by (simp add: field_simps)
    then have "of_int (2 ^ 52) \<le> y / 2 powi ey" by simp
    then have "rhe (of_int (2 ^ 52)) \<le> rhe (y / 2 powi ey)" by (rule rhe_mono)
    then have "2 ^ 52 \<le> rhe (y / 2 powi ey)" by (simp only: rhe_of_int)
    then have "real_of_int (2 ^ 52) \<le> of_int (rhe (y / 2 powi ey))" by (simp only: of_int_le_iff)
    then have "2 ^ 52 \<le> real_of_int (rhe (y / 2 powi ey))" by simp
    then have "2 ^ 52 * 2 powi ey \<le> round_real y" unfolding ry using py
      by (intro mult_right_mono) auto
    moreover have "(2::real) ^ 52 * 2 powi ey = 2 powi (ey + 52)" by (simp add: power_int_add)
    ultimately show ?thesis using ux by linarith
  qed
qed

lemma round_real_zero [simp]: "round_real 0 = 0"
  by (simp add: round_real_def)

lemma round_real_mono:
  assumes "x \<le> y"
  shows "round_real x \<le> round_real y"
proof -
  consider "0 < x" | "x \<le> 0" "0 \<le> y" | "y < 0" by linarith
  then show ?thesis
  proof cases
    case 1
    then show ?thesis using assms by (rule round_real_pos_mono)
  next
    case 2
    have "0 \<le> round_real (- x)" using 2 by (intro round_real_nonneg) simp
    then have "round_real x \<le> 0" by (simp add: round_real_uminus)
    moreover have "0 \<le> round_real y" using 2 by (intro round_real_nonneg)
    ultimately show ?thesis by linarith
  next
    case 3
    then have "round_real (- y) \<le> round_real (- x)" using assms by (intro round_real_pos_mono) auto
    then show ?thesis by (simp add: round_real_uminus)
  qed
qed

lemma round_real_exact:
  assumes "\<bar>m\<bar> < 2 ^ 53" "- 1074 \<le> e"
  shows "round_real (of_int m * 2 powi e) = of_int m * 2 powi e"
proof (cases "m = 0")
  case True
  then show ?thesis by simp
next
  case False
  define x :: real where "x = of_int m * 2 powi e"
  have x0: "x \<noteq> 0" using False by (simp add: x_def)
  have ax: "\<bar>x\<bar> = of_int \<bar>m\<bar> * 2 powi e" by (simp add: x_def abs_mult)
  have "real_of_int \<bar>m\<bar> < of_int (2 ^ 53)" using assms(1) by (simp only: of_int_less_iff)
  then have "real_of_int \<bar>m\<bar> < 2 ^ 53" by simp
  then have "\<bar>x\<bar> < 2 ^ 53 * 2 powi e" unfolding ax by (intro mult_strict_right_mono) auto
  also have "\<dots> = 2 powi (e + 53)" by (simp add: power_int_add)
  finally have up: "\<bar>x\<bar> < 2 powi (e + 53)" .
  have "0 < \<bar>x\<bar>" using x0 by simp
  from ilog2_bounds [OF this] have "2 powi (ilog2 \<bar>x\<bar>) < (2::real) powi (e + 53)" using up by linarith
  then have "ilog2 \<bar>x\<bar> < e + 53"
    using power_int_increasing [of "e + 53" "ilog2 \<bar>x\<bar>" "2::real"] by (cases "ilog2 \<bar>x\<bar> < e + 53") auto
  then have u: "ulp_exp x \<le> e" using assms(2) by (simp add: ulp_exp_def)
  define u where "u = ulp_exp x"
  have "x / 2 powi u = of_int m * 2 powi (e - u)" by (simp add: x_def power_int_diff)
  also have "\<dots> = of_int m * 2 ^ nat (e - u)" using u by (simp add: u_def powi_nonneg_eq)
  also have "\<dots> = of_int (m * 2 ^ nat (e - u))" by simp
  finally have q: "x / 2 powi u = of_int (m * 2 ^ nat (e - u))" .
  have "round_real x = of_int (rhe (x / 2 powi u)) * 2 powi u"
    using x0 by (simp add: round_real_def u_def Let_def)
  also have "\<dots> = of_int (m * 2 ^ nat (e - u)) * 2 powi u" by (simp only: q rhe_of_int)
  also have "\<dots> = x / 2 powi u * 2 powi u" by (simp only: q)
  also have "\<dots> = x" by simp
  finally show ?thesis by (simp add: x_def)
qed

section \<open>The loops keep the length of the array\<close>

lemma length_normalize_loop: "length (normalize_loop mean std i vs) = length vs"
  by (induction mean std i vs rule: normalize_loop.induct)
     (subst normalize_loop.simps, simp add: Let_def)

lemma length_scramble_loop: "length (snd (scramble_loop i x vs)) = length vs"
  by (induction i x vs rule: scramble_loop.induct)
     (subst scramble_loop.simps, simp add: Let_def)

lemma length_copy_loop: "length (copy_loop n temp i vs) = length vs"
  by (induction n temp i vs rule: copy_loop.induct)
     (subst copy_loop.simps, simp)

lemma length_relax_loop: "length (relax_loop scale bias n vs i temp) = length temp"
  by (induction scale bias n vs i temp rule: relax_loop.induct)
     (subst relax_loop.simps, simp add: Let_def)

lemma length_simulate_loop: "length (fst (simulate_loop k scale bias n (vs, temp))) = length vs"
  by (induction k arbitrary: vs temp) (simp_all add: Let_def length_copy_loop)

lemma length_average_loop: "length (average_loop n w vs i running out) = length out"
  by (induction n w vs i running out rule: average_loop.induct)
     (subst average_loop.simps, simp add: Let_def)

lemma length_adjust_loop: "length (adjust_loop n scale bias i out) = length out"
  by (induction n scale bias i out rule: adjust_loop.induct)
     (subst adjust_loop.simps, simp add: Let_def)

lemmas method_defs =
  doNormalizeInPlace_def doScramble_def doSimulate_def
  HeavyThing_normalizeInPlace_def HeavyThing_scramble_def HeavyThing_simulate_def
  factory_normalizeInPlace_def factory_scramble_def factory_simulate_def
  proto_normalizeInPlace_def proto_scramble_def proto_simulate_def

text \<open>
  Claim C9. The length of the value array of an instance never changes after
  construction: whatever the kind of the instance, whatever the method called and
  whatever its argument, the array has the same length after the call as before.
\<close>

theorem values_length_invariant:
  "length (thin_values (state_of (snd (invoke h c obj)))) = length (thin_values (state_of obj))"
proof (cases obj)
  case (ClassInst this)
  then show ?thesis
    by (cases c) (simp_all add: method_defs Let_def split_beta
        length_normalize_loop length_scramble_loop length_simulate_loop)
next
  case (FactoryInst env)
  then show ?thesis
    by (cases c) (simp_all add: method_defs Let_def split_beta
        length_normalize_loop length_scramble_loop length_simulate_loop)
next
  case (ThinInst state)
  then show ?thesis
    by (cases c) (simp_all add: method_defs Let_def split_beta
        length_normalize_loop length_scramble_loop length_simulate_loop)
next
  case (ProtoInst this)
  then show ?thesis
    by (cases c) (simp_all add: method_defs Let_def split_beta
        length_normalize_loop length_scramble_loop length_simulate_loop)
qed

section \<open>Facts about numbers\<close>

lemma less_number_simps [simp]:
  "Fin a < Fin b \<longleftrightarrow> a < b" "Fin a < PInf" "NInf < Fin b" "NInf < PInf"
  "\<not> x < NaN" "\<not> NaN < x" "\<not> PInf < x" "\<not> x < NInf"
  by (auto simp: less_number_def split: number.splits)

lemma less_eq_number_simps [simp]:
  "Fin a \<le> Fin b \<longleftrightarrow> a \<le> b" "Fin a \<le> PInf" "NInf \<le> Fin b" "NInf \<le> PInf"
  "PInf \<le> PInf" "NInf \<le> NInf"
  "\<not> x \<le> NaN" "\<not> NaN \<le> x" "\<not> PInf \<le> Fin b" "\<not> PInf \<le> NInf" "\<not> Fin a \<le> NInf"
  by (auto simp: less_eq_number_def)

lemma overflow_mono: "x \<le> y \<Longrightarrow> overflow x \<le> overflow y"
  by (auto simp: overflow_def)

lemma round64_mono: "x \<le> y \<Longrightarrow> round64 x \<le> round64 y"
  unfolding round64_def by (intro overflow_mono round_real_mono)

lemma round64_not_NaN [simp]: "round64 x \<noteq> NaN"
  by (simp add: round64_def overflow_def)

lemma round64_exact:
  assumes "\<bar>m\<bar> < 2 ^ 53" "- 1074 \<le> e" "\<bar>of_int m * 2 powi e\<bar> < (2::real) ^ 1024"
  shows "round64 (of_int m * 2 powi e) = Fin (of_int m * 2 powi e)"
proof -
  have "round_real (of_int m * 2 powi e) = of_int m * 2 powi e"
    using assms(1,2) by (rule round_real_exact)
  then show ?thesis using assms(3) by (auto simp: round64_def overflow_def)
qed

lemma round64_of_int:
  assumes "\<bar>i\<bar> \<le> 2 ^ 53"
  shows "round64 (of_int i) = Fin (of_int i)"
proof (cases "\<bar>i\<bar> < 2 ^ 53")
  case True
  have "real_of_int \<bar>i\<bar> < of_int (2 ^ 53)" using True by (simp only: of_int_less_iff)
  then have "\<bar>real_of_int i * 2 powi 0\<bar> < 2 ^ 1024" by simp
  from round64_exact [OF True _ this] show ?thesis by simp
next
  case False
  then consider "i = 2 ^ 53" | "i = - (2 ^ 53)" using assms by linarith
  then show ?thesis
  proof cases
    case 1
    have "round64 (of_int (2 ^ 52) * 2 powi 1) = Fin (of_int (2 ^ 52) * 2 powi 1)"
      by (rule round64_exact) simp_all
    then show ?thesis by (simp add: 1)
  next
    case 2
    have "round64 (of_int (- (2 ^ 52)) * 2 powi 1) = Fin (of_int (- (2 ^ 52)) * 2 powi 1)"
      by (rule round64_exact) simp_all
    then show ?thesis by (simp add: 2)
  qed
qed

lemma round64_of_nat: "n \<le> 2 ^ 53 \<Longrightarrow> round64 (real n) = Fin (real n)"
  using round64_of_int [of "int n"] by simp

lemma round64_0 [simp]: "round64 0 = Fin 0"
  using round64_of_int [of 0] by simp

lemma round64_1 [simp]: "round64 1 = Fin 1"
  using round64_of_int [of 1] by simp

lemma round64_numeral [simp]:
  "(numeral n :: int) \<le> 2 ^ 53 \<Longrightarrow> round64 (numeral n) = Fin (numeral n)"
  using round64_of_int [of "numeral n"] by simp

lemma round64_neg_numeral [simp]:
  "(numeral n :: int) \<le> 2 ^ 53 \<Longrightarrow> round64 (- numeral n) = Fin (- numeral n)"
  using round64_of_int [of "- numeral n"] by simp

lemma round64_half [simp]: "round64 (1 / 2) = Fin (1 / 2)"
  using round64_exact [of 1 "- 1"] by simp

lemma round64_quarter [simp]: "round64 (1 / 4) = Fin (1 / 4)"
  using round64_exact [of 1 "- 2"] by simp

lemma number_of_nat_exact: "n \<le> 2 ^ 53 \<Longrightarrow> number_of_nat n = Fin (real n)"
  by (simp add: number_of_nat_def round64_of_nat)

lemma number_of_int_exact: "\<bar>i\<bar> \<le> 2 ^ 53 \<Longrightarrow> number_of_int i = Fin (of_int i)"
  by (simp add: number_of_int_def round64_of_int)

lemma number_of_int_sint: "number_of_int (sint (w :: int32)) = Fin (of_int (sint w))"
proof -
  have "- (2 ^ 31) \<le> sint w" "sint w < 2 ^ 31"
    using sint_range_size [of w] by (simp_all add: word_size)
  then show ?thesis by (intro number_of_int_exact) simp
qed

lemma to_int32_of_int [simp]: "to_int32 (Fin (of_int i)) = word_of_int i"
  by (simp add: to_int32_def)

lemma to_int32_of_nat [simp]: "to_int32 (Fin (real n)) = of_nat n"
  using to_int32_of_int [of "int n"] by simp

lemma to_int32_numeral [simp]: "to_int32 (Fin (numeral n)) = numeral n"
  using to_int32_of_int [of "numeral n"] by simp

lemma to_int32_0 [simp]: "to_int32 (Fin 0) = 0"
  using to_int32_of_int [of 0] by simp

lemma to_int32_1 [simp]: "to_int32 (Fin 1) = 1"
  using to_int32_of_int [of 1] by simp

lemma to_int32_special [simp]: "to_int32 NaN = 0" "to_int32 PInf = 0" "to_int32 NInf = 0"
  by (simp_all add: to_int32_def)

lemma ustr_Nil [simp]: "ustr [] = []" by (simp add: ustr_def)

section \<open>The three strategies compute the same\<close>

lemma of_nat_mod32: "(of_nat (k mod 2 ^ 32) :: 32 word) = of_nat k"
  by (simp add: word_of_nat_eq_iff take_bit_eq_mod)

lemma word32_norm:
  "(2 ^ 32 :: nat) \<le> numeral n \<Longrightarrow> (numeral n :: 32 word) = of_nat (numeral n mod 2 ^ 32)"
  using of_nat_mod32 [of "numeral n", symmetric] by (simp only: of_nat_numeral)

lemma class_is_thin:
  "HeavyThing_checksum this = doChecksum (state_of (ClassInst this))"
  "state_of (ClassInst (HeavyThing_normalizeInPlace this)) = doNormalizeInPlace (state_of (ClassInst this))"
  "HeavyThing_rollingAverage this w = doRollingAverage (state_of (ClassInst this)) w"
  "state_of (ClassInst (HeavyThing_scramble this seed)) = doScramble (state_of (ClassInst this)) seed"
  "fst (HeavyThing_simulate this k) = fst (doSimulate (state_of (ClassInst this)) k)"
  "state_of (ClassInst (snd (HeavyThing_simulate this k))) = snd (doSimulate (state_of (ClassInst this)) k)"
  by (simp_all add: HeavyThing_checksum_def doChecksum_def HeavyThing_normalizeInPlace_def
      doNormalizeInPlace_def HeavyThing_rollingAverage_def doRollingAverage_def
      HeavyThing_scramble_def doScramble_def HeavyThing_simulate_def doSimulate_def
      Let_def split_beta)

lemma class_summary_is_thin:
  "HeavyThing_formatSummary h this = doFormatSummary h (state_of (ClassInst this))"
  by (simp add: HeavyThing_formatSummary_def doFormatSummary_def class_is_thin(1) split_beta)

lemma factory_is_thin:
  "factory_checksum env = doChecksum (state_of (FactoryInst env))"
  "state_of (FactoryInst (factory_normalizeInPlace env)) = doNormalizeInPlace (state_of (FactoryInst env))"
  "factory_rollingAverage env w = doRollingAverage (state_of (FactoryInst env)) w"
  "state_of (FactoryInst (factory_scramble env seed)) = doScramble (state_of (FactoryInst env)) seed"
  "fst (factory_simulate env k) = fst (doSimulate (state_of (FactoryInst env)) k)"
  "state_of (FactoryInst (snd (factory_simulate env k))) = snd (doSimulate (state_of (FactoryInst env)) k)"
  by (simp_all add: factory_checksum_def doChecksum_def factory_normalizeInPlace_def
      doNormalizeInPlace_def factory_rollingAverage_def doRollingAverage_def
      factory_scramble_def doScramble_def factory_simulate_def doSimulate_def
      Let_def split_beta)

lemma factory_summary_is_thin:
  "factory_formatSummary h env = doFormatSummary h (state_of (FactoryInst env))"
  by (simp add: factory_formatSummary_def doFormatSummary_def factory_is_thin(1) split_beta)

lemma proto_is_thin:
  "proto_checksum this = doChecksum (state_of (ProtoInst this))"
  "state_of (ProtoInst (proto_normalizeInPlace this)) = doNormalizeInPlace (state_of (ProtoInst this))"
  "proto_rollingAverage this w = doRollingAverage (state_of (ProtoInst this)) w"
  "state_of (ProtoInst (proto_scramble this seed)) = doScramble (state_of (ProtoInst this)) seed"
  "fst (proto_simulate this k) = fst (doSimulate (state_of (ProtoInst this)) k)"
  "state_of (ProtoInst (snd (proto_simulate this k))) = snd (doSimulate (state_of (ProtoInst this)) k)"
  by (simp_all add: proto_checksum_def doChecksum_def proto_normalizeInPlace_def
      doNormalizeInPlace_def proto_rollingAverage_def doRollingAverage_def
      proto_scramble_def doScramble_def proto_simulate_def doSimulate_def
      Let_def split_beta)

lemma proto_summary_is_thin:
  "proto_formatSummary h this = doFormatSummary h (state_of (ProtoInst this))"
  by (simp add: proto_formatSummary_def doFormatSummary_def proto_is_thin(1) split_beta)

lemmas is_thin = class_is_thin class_summary_is_thin factory_is_thin factory_summary_is_thin
  proto_is_thin proto_summary_is_thin

lemma invoke_result:
  "fst (invoke h c obj) = fst (invoke h c (ThinInst (state_of obj)))"
  by (cases obj; cases c) (simp_all add: is_thin split_beta)

lemma invoke_state:
  "state_of (snd (invoke h c obj)) = state_of (snd (invoke h c (ThinInst (state_of obj))))"
  by (cases obj; cases c) (simp_all add: is_thin split_beta del: state_of.simps(1,2,4))

lemma run_calls_thin:
  "fst (run_calls h cs obj) = fst (run_calls h cs (ThinInst (state_of obj)))
   \<and> state_of (snd (run_calls h cs obj)) = state_of (snd (run_calls h cs (ThinInst (state_of obj))))"
proof (induction cs arbitrary: obj)
  case Nil
  show ?case by simp
next
  case (Cons c cs)
  define o1 where "o1 = snd (invoke h c obj)"
  define o2 where "o2 = snd (invoke h c (ThinInst (state_of obj)))"
  have s: "state_of o1 = state_of o2" unfolding o1_def o2_def by (rule invoke_state)
  have r: "fst (invoke h c obj) = fst (invoke h c (ThinInst (state_of obj)))" by (rule invoke_result)
  have "fst (run_calls h cs o1) = fst (run_calls h cs o2)
        \<and> state_of (snd (run_calls h cs o1)) = state_of (snd (run_calls h cs o2))"
    using Cons.IH [of o1] Cons.IH [of o2] s by simp
  then show ?case
    using r by (simp add: split_beta o1_def o2_def)
qed

text \<open>
  Claim C1, as the code has it. An instance stamps \<open>createdAt\<close> from the clock when
  it is constructed, and the checksum mixes \<open>createdAt\<close> in. Constructed from the
  same arguments at the same clock reading, the class, the closure factory and the thin
  factory answer every sequence of calls with the same results, call by call, and end
  in the same state: the same values, bias and scale.
\<close>

theorem strategies_agree:
  "fst (run_calls h cs (ClassInst (new_HeavyThing now i n vs b s t)))
     = fst (run_calls h cs (ThinInst (createHeavyThingThin now i n vs b s t)))
   \<and> fst (run_calls h cs (FactoryInst (createHeavyThing now i n vs b s t)))
     = fst (run_calls h cs (ThinInst (createHeavyThingThin now i n vs b s t)))
   \<and> state_of (snd (run_calls h cs (ClassInst (new_HeavyThing now i n vs b s t))))
     = state_of (snd (run_calls h cs (ThinInst (createHeavyThingThin now i n vs b s t))))
   \<and> state_of (snd (run_calls h cs (FactoryInst (createHeavyThing now i n vs b s t))))
     = state_of (snd (run_calls h cs (ThinInst (createHeavyThingThin now i n vs b s t))))"
proof -
  have c: "state_of (ClassInst (new_HeavyThing now i n vs b s t)) = createHeavyThingThin now i n vs b s t"
    by (simp add: new_HeavyThing_def createHeavyThingThin_def)
  have f: "state_of (FactoryInst (createHeavyThing now i n vs b s t)) = createHeavyThingThin now i n vs b s t"
    by (simp add: createHeavyThing_def createHeavyThingThin_def)
  show ?thesis
    using run_calls_thin [of h cs "ClassInst (new_HeavyThing now i n vs b s t)", unfolded c]
      run_calls_thin [of h cs "FactoryInst (createHeavyThing now i n vs b s t)", unfolded f]
    by simp
qed

lemmas tag_step_numeral = tag_step_def [of "numeral a" "numeral c"] for a c
lemmas avalanche_numeral = avalanche_def [of "numeral a"] for a

lemma checksum_at_1700000000000:
  "doChecksum (createHeavyThingThin (Fin 1700000000000) (Fin 1) (ustr ''obj_1'') [] 0 1 (ustr ''alpha''))
     = Fin 704991271"
  by (simp add: doChecksum_def createHeavyThingThin_def number_of_nat_exact number_of_int_sint
      tag_step_numeral charCode_def ustr_def word32_norm avalanche_numeral)

lemma checksum_at_1700000000001:
  "doChecksum (createHeavyThingThin (Fin 1700000000001) (Fin 1) (ustr ''obj_1'') [] 0 1 (ustr ''alpha''))
     = Fin 657303381"
  by (simp add: doChecksum_def createHeavyThingThin_def number_of_nat_exact number_of_int_sint
      tag_step_numeral charCode_def ustr_def word32_norm avalanche_numeral)

text \<open>
  Claim C1 as stated fails: the same constructor arguments, given to the class at one
  clock reading and to the thin factory a millisecond later, give two different
  checksums.
\<close>

theorem strategies_differ_by_clock:
  "checksum_of (ClassInst (new_HeavyThing (Fin 1700000000000) (Fin 1) (ustr ''obj_1'') [] 0 1 (ustr ''alpha'')))
     \<noteq> checksum_of (ThinInst (createHeavyThingThin (Fin 1700000000001) (Fin 1) (ustr ''obj_1'') [] 0 1 (ustr ''alpha'')))"
proof -
  have "state_of (ClassInst (new_HeavyThing (Fin 1700000000000) (Fin 1) (ustr ''obj_1'') [] 0 1 (ustr ''alpha'')))
      = createHeavyThingThin (Fin 1700000000000) (Fin 1) (ustr ''obj_1'') [] 0 1 (ustr ''alpha'')"
    by (simp add: new_HeavyThing_def createHeavyThingThin_def)
  then show ?thesis
    by (simp add: class_is_thin(1) checksum_at_1700000000000 checksum_at_1700000000001
        del: state_of.simps)
qed

section \<open>Checksum and summary\<close>

lemma invoke_Checksum: "invoke h Checksum obj = (RNumber (checksum_of obj), obj)"
  by (cases obj) simp_all

lemma checksum_of_thin: "checksum_of obj = doChecksum (state_of obj)"
  by (cases obj) (simp_all add: is_thin del: state_of.simps(1,2,4))

lemma doChecksum_int32: "\<exists>w :: int32. doChecksum st = Fin (of_int (sint w))"
  unfolding doChecksum_def Let_def split_beta number_of_int_sint by blast

lemma invoke_FormatSummary:
  "invoke h FormatSummary obj = (RString (doFormatSummary h (state_of obj)), obj)"
  by (cases obj) (simp_all add: is_thin del: state_of.simps(1,2,4))

lemma decorate_ten:
  "decorate [l0, l1, l2, l3, l4, l5, l6, l7, l8, l9] =
     [ustr ''00|'' @ l0, ustr ''01|'' @ l1, ustr ''02|'' @ l2, ustr ''03|'' @ l3,
      ustr ''04|'' @ l4, ustr ''05|'' @ l5, ustr ''06|'' @ l6, ustr ''07|'' @ l7,
      ustr ''08|'' @ l8, ustr ''09|'' @ l9]"
  by (simp add: decorate_def enumerate_simps padStart2_def toString16.simps hex_digit_def ustr_def)

lemma ustr_append: "ustr (a @ b) = ustr a @ ustr b"
  by (simp add: ustr_def)


section \<open>Simulation\<close>

lemma steps_of_0_1: "steps_of (Fin 0) = steps_of (Fin 1)"
  by (simp add: steps_of_def)

lemma doSimulate_0_1: "doSimulate st (Fin 0) = doSimulate st (Fin 1)"
  by (simp add: doSimulate_def steps_of_0_1)

lemma invoke_Simulate:
  "invoke h (Simulate k) obj =
     (RNumber (fst (doSimulate (state_of obj) k)), snd (invoke h (Simulate k) obj))"
  by (cases obj) (simp_all add: is_thin split_beta del: state_of.simps(1,2,4))

text \<open>
  Claim C6. \<open>simulate(0)\<close> returns what \<open>simulate(1)\<close> returns and leaves the
  instance in the same state, for every instance: the number of iterations is at least
  one. On an instance with no values \<open>simulate\<close> returns 0 and changes nothing,
  whatever the number of iterations asked for.
\<close>

theorem simulate_zero_is_one_and_empty_is_zero:
  "invoke h (Simulate (Fin 0)) obj = invoke h (Simulate (Fin 1)) obj
   \<and> 1 \<le> steps_of k
   \<and> invoke h (Simulate k) (ThinInst (st\<lparr>thin_values := []\<rparr>)) = (RNumber (Fin 0), ThinInst (st\<lparr>thin_values := []\<rparr>))
   \<and> invoke h (Simulate k) (ClassInst (this\<lparr>ht_values := []\<rparr>)) = (RNumber (Fin 0), ClassInst (this\<lparr>ht_values := []\<rparr>))
   \<and> invoke h (Simulate k) (FactoryInst (env\<lparr>c_values := []\<rparr>)) = (RNumber (Fin 0), FactoryInst (env\<lparr>c_values := []\<rparr>))
   \<and> invoke h (Simulate k) (ProtoInst (that\<lparr>p_values := []\<rparr>)) = (RNumber (Fin 0), ProtoInst (that\<lparr>p_values := []\<rparr>))"
proof -
  have "invoke h (Simulate (Fin 0)) obj = invoke h (Simulate (Fin 1)) obj"
    by (cases obj)
       (simp_all add: doSimulate_def HeavyThing_simulate_def factory_simulate_def
          proto_simulate_def steps_of_0_1)
  moreover have "1 \<le> steps_of k" by (simp add: steps_of_def)
  ultimately show ?thesis
    by (simp add: doSimulate_def HeavyThing_simulate_def factory_simulate_def
        proto_simulate_def zero_number_def)
qed

section \<open>The population and the command line\<close>

lemma make_loop_eq:
  "i \<le> count0 \<Longrightarrow> length out = count0 \<Longrightarrow>
   make_loop a clock count0 i (out, r) =
     (take i out @ map (\<lambda>j. Some (make_instance a (clock j) j)) [i..<count0],
      r @ map (\<lambda>j. make_instance a (clock j) j) [i..<count0])"
proof (induction a clock count0 i "(out, r)" arbitrary: out r rule: make_loop.induct)
  case (1 a clock count0 i out r)
  show ?case
  proof (cases "i < count0")
    case True
    let ?inst = "make_instance a (clock i) i"
    have "make_loop a clock count0 i (out, r)
          = make_loop a clock count0 (i + 1) (out[i := Some ?inst], r @ [?inst])"
      using True by (subst make_loop.simps) (simp add: Let_def)
    also have "\<dots> = (take (i + 1) (out[i := Some ?inst])
                        @ map (\<lambda>j. Some (make_instance a (clock j) j)) [i + 1..<count0],
                      (r @ [?inst]) @ map (\<lambda>j. make_instance a (clock j) j) [i + 1..<count0])"
      using True "1.prems" by (intro "1.hyps") simp_all
    also have "take (i + 1) (out[i := Some ?inst]) = take i out @ [Some ?inst]"
      using True "1.prems" by (simp add: take_Suc_conv_app_nth)
    finally show ?thesis using True by (simp add: upt_conv_Cons)
  next
    case False
    then show ?thesis using "1.prems" by (subst make_loop.simps) simp
  qed
qed

lemma touch_loop_ok:
  "(\<And>j. i \<le> j \<Longrightarrow> j < t \<Longrightarrow> out ! j \<noteq> None) \<Longrightarrow> touch_loop t i out = Inr ()"
proof (induction t i out rule: touch_loop.induct)
  case (1 t i out)
  show ?case
  proof (cases "i < t")
    case True
    then obtain inst where "out ! i = Some inst" using "1.prems" [of i] by auto
    moreover have "touch_loop t (i + 1) out = Inr ()"
      using True \<open>out ! i = Some inst\<close> "1.prems" by (intro "1.IH") auto
    ultimately show ?thesis using True by (subst touch_loop.simps) (simp add: Let_def)
  next
    case False
    then show ?thesis by (subst touch_loop.simps) simp
  qed
qed

lemma makeInstances_eq:
  "makeInstances clock a N r =
     (if 2 ^ 32 \<le> N then (Inl RangeError, r)
      else (Inr (map (\<lambda>j. Some (make_instance a (clock j) j)) [0..<N]),
            r @ map (\<lambda>j. make_instance a (clock j) j) [0..<N]))"
proof (cases "(2::nat) ^ 32 \<le> N")
  case True
  then show ?thesis by (simp add: makeInstances_def)
next
  case False
  have l: "make_loop a clock N 0 (replicate N None, r) =
     (map (\<lambda>j. Some (make_instance a (clock j) j)) [0..<N],
      r @ map (\<lambda>j. make_instance a (clock j) j) [0..<N])"
    using make_loop_eq [of 0 N "replicate N None" a clock r] by simp
  have t: "touch_loop (min 10 N) 0 (map (\<lambda>j. Some (make_instance a (clock j) j)) [0..<N]) = Inr ()"
    by (rule touch_loop_ok) simp
  show ?thesis using False by (simp add: makeInstances_def l t)
qed

lemma make_instance_thin:
  assumes "a \<noteq> ustr ''class''" "a \<noteq> ustr ''factory''"
  shows "make_instance a now j =
     ThinInst (createHeavyThingThin now (number_of_nat (j + 1)) (ustr ''obj_'' @ toString16 (j + 1))
       (generateInitialValues (number_of_nat (j + 1)) 64)
       (number_of_nat (j mod 7) * lit 0.01) (1 + number_of_nat (j mod 5) * lit 0.01)
       (if j mod 3 = 0 then ustr ''alpha'' else if j mod 3 = 1 then ustr ''beta'' else ustr ''gamma''))"
  using assms by (simp add: make_instance_def Let_def)

lemma prototype_is_neither:
  "ustr ''factory-prototype'' \<noteq> ustr ''class''" "ustr ''factory-prototype'' \<noteq> ustr ''factory''"
  by (simp_all add: ustr_def)

lemma make_instance_not_proto: "make_instance a now j \<noteq> ProtoInst s"
  by (simp add: make_instance_def Let_def)

lemma parse_prototype:
  assumes "Number h c = Fin x" "1 \<le> x"
  shows "parseArgs h [ustr ''--approach'', ustr ''factory-prototype'', ustr ''--count'', c]
     = Some \<lparr>approach = ustr ''factory-prototype'', count = Fin (of_int \<lfloor>x\<rfloor>)\<rparr>"
proof -
  have "1 \<le> \<lfloor>x\<rfloor>" using assms(2) by (simp add: le_floor_iff)
  then have "\<lfloor>x\<rfloor> \<noteq> 0" by linarith
  then have nz: "\<not> falsy (Fin (of_int \<lfloor>x\<rfloor>))"
    by (simp only: falsy_def number.inject number.distinct of_int_eq_0_iff simp_thms)
  have pl: "parse_loop h [ustr ''--approach'', ustr ''factory-prototype'', ustr ''--count'', c] (None, None)
      = (Some (ustr ''factory-prototype''), Some (Fin (of_int \<lfloor>x\<rfloor>)))"
    using assms
    by (simp add: valid_approach_def isFinite_def Math_floor_def ustr_def zero_number_def Let_def)
  have ne: "ustr ''factory-prototype'' \<noteq> []" by (simp add: ustr_def)
  show ?thesis
    unfolding parseArgs_def pl using nz ne by simp
qed

text \<open>
  Claim C10. The parser takes \<open>factory-prototype\<close> for an approach. \<open>makeInstances\<close>
  compares the approach with \<open>class\<close> and with \<open>factory\<close> only, so for
  \<open>factory-prototype\<close>, as for every other string, each instance is built by
  \<open>createHeavyThingThin\<close>; no instance it builds, for any approach, is one of
  \<open>createHeavyThingPrototype\<close>.
\<close>

theorem prototype_approach_builds_thin:
  assumes "Number h c = Fin x" "1 \<le> x"
  shows "parseArgs h [ustr ''--approach'', ustr ''factory-prototype'', ustr ''--count'', c]
           = Some \<lparr>approach = ustr ''factory-prototype'', count = Fin (of_int \<lfloor>x\<rfloor>)\<rparr>
   \<and> makeInstances clock a N r =
       (if 2 ^ 32 \<le> N then (Inl RangeError, r)
        else (Inr (map (\<lambda>j. Some (make_instance a (clock j) j)) [0..<N]),
              r @ map (\<lambda>j. make_instance a (clock j) j) [0..<N]))
   \<and> make_instance (ustr ''factory-prototype'') now j =
       ThinInst (createHeavyThingThin now (number_of_nat (j + 1)) (ustr ''obj_'' @ toString16 (j + 1))
         (generateInitialValues (number_of_nat (j + 1)) 64)
         (number_of_nat (j mod 7) * lit 0.01) (1 + number_of_nat (j mod 5) * lit 0.01)
         (if j mod 3 = 0 then ustr ''alpha'' else if j mod 3 = 1 then ustr ''beta'' else ustr ''gamma''))
   \<and> (a \<noteq> ustr ''class'' \<longrightarrow> a \<noteq> ustr ''factory'' \<longrightarrow>
        (\<exists>st. make_instance a now j = ThinInst st))
   \<and> make_instance a now j \<noteq> ProtoInst s"
proof -
  have "make_instance (ustr ''factory-prototype'') now j =
       ThinInst (createHeavyThingThin now (number_of_nat (j + 1)) (ustr ''obj_'' @ toString16 (j + 1))
         (generateInitialValues (number_of_nat (j + 1)) 64)
         (number_of_nat (j mod 7) * lit 0.01) (1 + number_of_nat (j mod 5) * lit 0.01)
         (if j mod 3 = 0 then ustr ''alpha'' else if j mod 3 = 1 then ustr ''beta'' else ustr ''gamma''))"
    by (rule make_instance_thin) (rule prototype_is_neither)+
  moreover have "a \<noteq> ustr ''class'' \<longrightarrow> a \<noteq> ustr ''factory'' \<longrightarrow>
        (\<exists>st. make_instance a now j = ThinInst st)"
    using make_instance_thin [of a now j] by blast
  ultimately show ?thesis
    using parse_prototype [OF assms] makeInstances_eq [of clock a N r]
      make_instance_not_proto [of a now j s]
    by blast
qed

theorem prototype_approach_builds_thin_witness:
  "parseArgs \<lparr>toString = (\<lambda>x. []), toFixed6 = (\<lambda>x. []), Number = (\<lambda>s. Fin 3)\<rparr>
      [ustr ''--approach'', ustr ''factory-prototype'', ustr ''--count'', ustr ''3'']
           = Some \<lparr>approach = ustr ''factory-prototype'', count = Fin 3\<rparr>
   \<and> (\<exists>st. make_instance (ustr ''factory-thin'') (Fin 0) 0 = ThinInst st)
   \<and> fst (makeInstances (\<lambda>i. Fin 0) (ustr ''factory-prototype'') 2 []) =
       Inr [Some (make_instance (ustr ''factory-prototype'') (Fin 0) 0),
            Some (make_instance (ustr ''factory-prototype'') (Fin 0) 1)]"
  using prototype_approach_builds_thin [of
      "\<lparr>toString = (\<lambda>x. []), toFixed6 = (\<lambda>x. []), Number = (\<lambda>s. Fin 3)\<rparr>" "ustr ''3''" 3
      "\<lambda>i. Fin 0" "ustr ''factory-thin''" 2 "[]" "Fin 0" 0]
    prototype_approach_builds_thin [of
      "\<lparr>toString = (\<lambda>x. []), toFixed6 = (\<lambda>x. []), Number = (\<lambda>s. Fin 3)\<rparr>" "ustr ''3''" 3
      "\<lambda>i. Fin 0" "ustr ''factory-prototype''" 2 "[]" "Fin 0" 0]
  by (simp add: upt_rec ustr_def)


section \<open>The snapshot\<close>

lemma emit_frame:
  "\<exists>ws. emit ms s = s\<lparr>written := written s @ ws, actions := actions s @ map Write ws\<rparr>"
proof (induction ms arbitrary: s)
  case Nil
  have "emit [] s = s\<lparr>written := written s @ [], actions := actions s @ map Write []\<rparr>"
    by (simp add: emit_def)
  then show ?case by blast
next
  case (Cons m ms)
  define s' where "s' = (if listening s then onChunk m s else s)"
  have e: "emit (m # ms) s = emit ms s'" by (simp add: emit_def s'_def)
  obtain c where c: "s' = s\<lparr>written := written s @ c, actions := actions s @ map Write c\<rparr>"
  proof (cases "s' = s")
    case True
    then have "s' = s\<lparr>written := written s @ [], actions := actions s @ map Write []\<rparr>" by simp
    then show ?thesis by (rule that)
  next
    case False
    then obtain x where "s' = output_write x s"
      by (auto simp: s'_def onChunk_def Let_def split: if_splits option.splits payload.splits)
    then have "s' = s\<lparr>written := written s @ [x], actions := actions s @ map Write [x]\<rparr>"
      by (simp add: output_write_def act_def)
    then show ?thesis by (rule that)
  qed
  from Cons.IH [of s'] obtain ws where
    "emit ms s' = s'\<lparr>written := written s' @ ws, actions := actions s' @ map Write ws\<rparr>" ..
  then have "emit (m # ms) s = s\<lparr>written := written s @ (c @ ws), actions := actions s @ map Write (c @ ws)\<rparr>"
    by (simp add: e c)
  then show ?case by blast
qed

lemma snapshot_enable_fails:
  "takeHeapSnapshot (p\<lparr>enable_err := Some e\<rparr>) =
     (Some e, \<lparr>connected = True, enabled = False, listening = True, stream_open = True,
               written = [], actions = [Connect, CreateWriteStream, On, PostEnable]\<rparr>)"
  by (simp add: takeHeapSnapshot_def act_def idle_def)

lemma snapshot_capture_fails:
  "\<exists>ws. takeHeapSnapshot (p\<lparr>enable_err := None, capture_err := Some e\<rparr>) =
     (Some e, \<lparr>connected = True, enabled = True, listening = True, stream_open = True,
               written = ws,
               actions = [Connect, CreateWriteStream, On, PostEnable, PostTakeHeapSnapshot]
                         @ map Write ws\<rparr>)"
proof -
  define s where "s = \<lparr>connected = True, enabled = True, listening = True, stream_open = True,
     written = [], actions = [Connect, CreateWriteStream, On, PostEnable, PostTakeHeapSnapshot]\<rparr>"
  obtain ws where "emit (emitted p) s = s\<lparr>written := written s @ ws, actions := actions s @ map Write ws\<rparr>"
    using emit_frame [of "emitted p" s] ..
  then have "takeHeapSnapshot (p\<lparr>enable_err := None, capture_err := Some e\<rparr>) =
     (Some e, \<lparr>connected = True, enabled = True, listening = True, stream_open = True,
               written = ws,
               actions = [Connect, CreateWriteStream, On, PostEnable, PostTakeHeapSnapshot]
                         @ map Write ws\<rparr>)"
    by (simp add: takeHeapSnapshot_def act_def idle_def s_def)
  then show ?thesis by blast
qed

lemma snapshot_disable_fails:
  "\<exists>ws. takeHeapSnapshot (p\<lparr>enable_err := None, capture_err := None, disable_err := Some e\<rparr>) =
     (Some e, \<lparr>connected = True, enabled = True, listening = False, stream_open = False,
               written = ws,
               actions = [Connect, CreateWriteStream, On, PostEnable, PostTakeHeapSnapshot]
                         @ map Write ws @ [CaptureResolved, Off, End, PostDisable]\<rparr>)"
proof -
  define s where "s = \<lparr>connected = True, enabled = True, listening = True, stream_open = True,
     written = [], actions = [Connect, CreateWriteStream, On, PostEnable, PostTakeHeapSnapshot]\<rparr>"
  obtain ws where "emit (emitted p) s = s\<lparr>written := written s @ ws, actions := actions s @ map Write ws\<rparr>"
    using emit_frame [of "emitted p" s] ..
  then have "takeHeapSnapshot (p\<lparr>enable_err := None, capture_err := None, disable_err := Some e\<rparr>) =
     (Some e, \<lparr>connected = True, enabled = True, listening = False, stream_open = False,
               written = ws,
               actions = [Connect, CreateWriteStream, On, PostEnable, PostTakeHeapSnapshot]
                         @ map Write ws @ [CaptureResolved, Off, End, PostDisable]\<rparr>)"
    by (simp add: takeHeapSnapshot_def act_def idle_def s_def)
  then show ?thesis by blast
qed

lemma snapshot_succeeds:
  "\<exists>ws. takeHeapSnapshot (p\<lparr>enable_err := None, capture_err := None, disable_err := None\<rparr>) =
     (None, \<lparr>connected = False, enabled = False, listening = False, stream_open = False,
             written = ws,
             actions = [Connect, CreateWriteStream, On, PostEnable, PostTakeHeapSnapshot]
                       @ map Write ws @ [CaptureResolved, Off, End, PostDisable, Disconnect]\<rparr>)"
proof -
  define s where "s = \<lparr>connected = True, enabled = True, listening = True, stream_open = True,
     written = [], actions = [Connect, CreateWriteStream, On, PostEnable, PostTakeHeapSnapshot]\<rparr>"
  obtain ws where "emit (emitted p) s = s\<lparr>written := written s @ ws, actions := actions s @ map Write ws\<rparr>"
    using emit_frame [of "emitted p" s] ..
  then have "takeHeapSnapshot (p\<lparr>enable_err := None, capture_err := None, disable_err := None\<rparr>) =
     (None, \<lparr>connected = False, enabled = False, listening = False, stream_open = False,
             written = ws,
             actions = [Connect, CreateWriteStream, On, PostEnable, PostTakeHeapSnapshot]
                       @ map Write ws @ [CaptureResolved, Off, End, PostDisable, Disconnect]\<rparr>)"
    by (simp add: takeHeapSnapshot_def act_def idle_def s_def)
  then show ?thesis by blast
qed

text \<open>
  Claim C2, as the code has it. There are four ways out of \<open>takeHeapSnapshot\<close>.
  When the three requests succeed the promise resolves, with the profiler disabled, the
  session disconnected and the stream ended after the capture resolved. When the enable
  request or the capture request fails the promise rejects with that error at once:
  nothing is disabled or disconnected, the handler stays registered and the stream
  stays open. When the disable request fails the promise rejects with the session still
  connected. On every way out the stream is ended only after the capture has resolved.
\<close>

theorem snapshot_releases_only_on_success:
  "(\<exists>ws. takeHeapSnapshot (p\<lparr>enable_err := None, capture_err := None, disable_err := None\<rparr>) =
     (None, \<lparr>connected = False, enabled = False, listening = False, stream_open = False,
             written = ws,
             actions = [Connect, CreateWriteStream, On, PostEnable, PostTakeHeapSnapshot]
                       @ map Write ws @ [CaptureResolved, Off, End, PostDisable, Disconnect]\<rparr>))
   \<and> takeHeapSnapshot (p\<lparr>enable_err := Some e\<rparr>) =
     (Some e, \<lparr>connected = True, enabled = False, listening = True, stream_open = True,
               written = [], actions = [Connect, CreateWriteStream, On, PostEnable]\<rparr>)
   \<and> (\<exists>ws. takeHeapSnapshot (p\<lparr>enable_err := None, capture_err := Some e\<rparr>) =
     (Some e, \<lparr>connected = True, enabled = True, listening = True, stream_open = True,
               written = ws,
               actions = [Connect, CreateWriteStream, On, PostEnable, PostTakeHeapSnapshot]
                         @ map Write ws\<rparr>))
   \<and> (\<exists>ws. takeHeapSnapshot (p\<lparr>enable_err := None, capture_err := None, disable_err := Some e\<rparr>) =
     (Some e, \<lparr>connected = True, enabled = True, listening = False, stream_open = False,
               written = ws,
               actions = [Connect, CreateWriteStream, On, PostEnable, PostTakeHeapSnapshot]
                         @ map Write ws @ [CaptureResolved, Off, End, PostDisable]\<rparr>))"
  using snapshot_succeeds [where p = p] snapshot_enable_fails [where p = p and e = e]
    snapshot_capture_fails [where p = p and e = e] snapshot_disable_fails [where p = p and e = e]
  by blast

text \<open>
  Claim C2 as stated fails: when the enable request is refused the promise rejects with
  the session connected and the stream open, and neither the disable request nor the
  disconnect has been made.
\<close>

theorem snapshot_leaks_session_when_enable_fails:
  "fst (takeHeapSnapshot \<lparr>enable_err = Some (ustr ''refused''), emitted = [],
                          capture_err = None, disable_err = None\<rparr>) = Some (ustr ''refused'')
   \<and> connected (snd (takeHeapSnapshot \<lparr>enable_err = Some (ustr ''refused''), emitted = [],
                          capture_err = None, disable_err = None\<rparr>))
   \<and> stream_open (snd (takeHeapSnapshot \<lparr>enable_err = Some (ustr ''refused''), emitted = [],
                          capture_err = None, disable_err = None\<rparr>))
   \<and> PostDisable \<notin> set (actions (snd (takeHeapSnapshot \<lparr>enable_err = Some (ustr ''refused''),
                          emitted = [], capture_err = None, disable_err = None\<rparr>)))
   \<and> Disconnect \<notin> set (actions (snd (takeHeapSnapshot \<lparr>enable_err = Some (ustr ''refused''),
                          emitted = [], capture_err = None, disable_err = None\<rparr>)))"
  by (simp add: takeHeapSnapshot_def act_def idle_def)

section \<open>Intervals\<close>

lemma bounded_by_Fin [simp]: "bounded_by b (Fin a) \<longleftrightarrow> \<bar>a\<bar> \<le> b"
  and bounded_by_special [simp]: "\<not> bounded_by b PInf" "\<not> bounded_by b NInf" "\<not> bounded_by b NaN"
  by (simp_all add: bounded_by_def)

lemma bounded_byE: "bounded_by b x \<Longrightarrow> (\<And>a. x = Fin a \<Longrightarrow> \<bar>a\<bar> \<le> b \<Longrightarrow> P) \<Longrightarrow> P"
  by (cases x) simp_all

lemma round64_between:
  assumes "a \<le> x" "x \<le> b" "round64 a = Fin a" "round64 b = Fin b"
  shows "\<exists>r. round64 x = Fin r \<and> a \<le> r \<and> r \<le> b"
proof -
  have "Fin a \<le> round64 x" "round64 x \<le> Fin b"
    using round64_mono [OF assms(1)] round64_mono [OF assms(2)] assms(3,4) by simp_all
  then show ?thesis by (cases "round64 x") simp_all
qed

lemma round64_pow2:
  assumes "- 1074 \<le> k" "k < 1024"
  shows "round64 (2 powi k) = Fin (2 powi k)"
proof -
  have "(2::real) powi k < 2 powi 1024" using assms(2) by (intro power_int_strict_increasing) auto
  then have "\<bar>real_of_int 1 * 2 powi k\<bar> < 2 ^ 1024" by (simp add: power_int_def)
  from round64_exact [of 1 k, OF _ assms(1) this] show ?thesis by simp
qed

lemma round64_neg: "round64 (- x) = - round64 x"
  by (auto simp: round64_def round_real_uminus overflow_def uminus_number_def)

lemma round64_bounded_by:
  assumes "\<bar>x\<bar> \<le> b" "round64 b = Fin b"
  shows "bounded_by b (round64 x)"
proof -
  have nb: "round64 (- b) = Fin (- b)" by (simp add: round64_neg assms(2) uminus_number_def)
  have "- b \<le> x" "x \<le> b" using assms(1) by linarith+
  from round64_between [OF this nb assms(2)] show ?thesis by auto
qed

lemma lit_numeral [simp]:
  "(numeral n :: int) \<le> 2 ^ 53 \<Longrightarrow> lit (numeral n) = Fin (numeral n)"
  by (simp add: lit_def)

lemma lit_one [simp]: "lit 1 = Fin 1"
  by (simp add: lit_def)

lemma lit_half [simp]: "lit (1 / 2) = Fin (1 / 2)"
  by (simp add: lit_def)

lemma lit_unit:
  assumes "0 \<le> x" "x \<le> b" "round64 b = Fin b"
  shows "\<exists>c. lit x = Fin c \<and> 0 \<le> c \<and> c \<le> b"
  unfolding lit_def using round64_between [OF assms(1,2) round64_0 assms(3)] .

lemma frac_unit: "0 \<le> (a::real) \<Longrightarrow> a \<le> b \<Longrightarrow> 0 < b \<Longrightarrow> 0 \<le> a / b \<and> a / b \<le> 1"
  by simp

lemma unat32_le: "unat (x :: int32) \<le> 4294967295"
proof -
  have "unat x < 2 ^ LENGTH(32)" by (rule unsigned_less)
  then show ?thesis by simp
qed

lemma unit_draw_range: "\<exists>r. unit_draw x = Fin r \<and> 0 \<le> r \<and> r \<le> 1"
proof -
  have n: "number_of_nat (unat x) = Fin (real (unat x))"
    using unat32_le [of x] by (intro number_of_nat_exact) simp
  have r: "real (unat x) \<le> 4294967295" using unat32_le [of x] by linarith
  have nn: "0 \<le> real (unat x)" by (simp only: of_nat_0_le_iff)
  have "0 \<le> real (unat x) / 4294967295" "real (unat x) / 4294967295 \<le> 1"
    using frac_unit [OF nn r] by simp_all
  from round64_between [OF this round64_0 round64_1]
  show ?thesis by (simp add: unit_draw_def n divide_number_def)
qed

lemma initial_value_range: "Fin (- 1) \<le> initial_value x \<and> initial_value x \<le> Fin 1"
proof -
  obtain r where r: "unit_draw x = Fin r" "0 \<le> r" "r \<le> 1"
    using unit_draw_range by blast
  have nh: "round64 (- (1 / 2)) = Fin (- (1 / 2))"
    by (simp only: round64_neg round64_half uminus_number_def number.case)
  have "- (1 / 2) \<le> r - 1 / 2" "r - 1 / 2 \<le> 1 / 2" using r by simp_all
  from round64_between [OF this nh round64_half]
  obtain t where t: "round64 (r - 1 / 2) = Fin t" "- (1 / 2) \<le> t" "t \<le> 1 / 2" by blast
  have n1: "round64 (- 1) = Fin (- 1)"
    by (simp only: round64_neg round64_1 uminus_number_def number.case)
  have "- 1 \<le> t * 2" "t * 2 \<le> 1" using t by simp_all
  from round64_between [OF this n1 round64_1]
  obtain u where u: "round64 (t * 2) = Fin u" "- 1 \<le> u" "u \<le> 1" by blast
  have "initial_value x = Fin u"
    by (simp add: initial_value_def r minus_number_def t times_number_def u)
  then show ?thesis using u by simp
qed

section \<open>The initial values\<close>

lemma generate_loop_eq:
  "i \<le> len \<Longrightarrow> length arr = len \<Longrightarrow>
   generate_loop len i x arr =
     take i arr @ map (\<lambda>k. initial_value ((xorshift32 ^^ Suc (k - i)) x)) [i..<len]"
proof (induction len i x arr rule: generate_loop.induct)
  case (1 len i x arr)
  show ?case
  proof (cases "i < len")
    case True
    define x' where "x' = xorshift32 x"
    define v where "v = initial_value x'"
    have "generate_loop len i x arr = generate_loop len (i + 1) x' (arr[i := v])"
      using True
      by (subst generate_loop.simps) (simp add: Let_def x'_def v_def initial_value_def unit_draw_def)
    also have "\<dots> = take (i + 1) (arr[i := v])
                 @ map (\<lambda>k. initial_value ((xorshift32 ^^ Suc (k - (i + 1))) x')) [i + 1..<len]"
      using "1.IH" [OF True refl refl] True "1.prems"
      by (simp add: x'_def v_def initial_value_def unit_draw_def)
    also have "take (i + 1) (arr[i := v]) = take i arr @ [v]"
      using True "1.prems" by (simp add: take_Suc_conv_app_nth)
    also have "map (\<lambda>k. initial_value ((xorshift32 ^^ Suc (k - (i + 1))) x')) [i + 1..<len]
             = map (\<lambda>k. initial_value ((xorshift32 ^^ Suc (k - i)) x)) [i + 1..<len]"
    proof (rule map_cong [OF refl])
      fix k assume "k \<in> set [i + 1..<len]"
      then have "k - i = Suc (k - (i + 1))" by auto
      then show "initial_value ((xorshift32 ^^ Suc (k - (i + 1))) x')
               = initial_value ((xorshift32 ^^ Suc (k - i)) x)"
        by (simp add: x'_def funpow_swap1)
    qed
    finally show ?thesis using True by (simp add: upt_conv_Cons v_def x'_def)
  next
    case False
    then show ?thesis using "1.prems" by (subst generate_loop.simps) simp
  qed
qed

lemma generateInitialValues_eq:
  "generateInitialValues seed len =
     map (\<lambda>k. initial_value ((xorshift32 ^^ Suc k) (seed_or 123456789 seed))) [0..<len]"
  using generate_loop_eq [of 0 len "new_Array len" "seed_or 123456789 seed"]
  by (simp add: generateInitialValues_def new_Array_def)

lemma seed_of_id:
  assumes "i < 2 ^ 32 - 1"
  shows "seed_or 123456789 (number_of_nat (i + 1)) = of_nat (i + 1)"
proof -
  have n: "number_of_nat (i + 1) = Fin (real (i + 1))" using assms by (intro number_of_nat_exact) simp
  have "unat (of_nat (i + 1) :: int32) = i + 1"
    using assms by (simp add: unat_of_nat take_bit_eq_mod del: of_nat_Suc of_nat_add)
  then have "(of_nat (i + 1) :: int32) \<noteq> 0" by (metis Suc_eq_plus1 nat.simps(3) unat_0)
  then show ?thesis by (simp only: seed_or_def n to_int32_of_nat if_False)
qed

lemma state_of_make_instance:
  "state_of (make_instance a now i) =
     \<lparr>thin_id = number_of_nat (i + 1), thin_name = ustr ''obj_'' @ toString16 (i + 1),
      thin_values = generateInitialValues (number_of_nat (i + 1)) 64,
      thin_bias = number_of_nat (i mod 7) * lit 0.01,
      thin_scale = 1 + number_of_nat (i mod 5) * lit 0.01,
      thin_createdAt = now,
      thin_tag = [ustr ''alpha'', ustr ''beta'', ustr ''gamma''] ! (i mod 3)\<rparr>"
proof -
  have "i mod 3 = 0 \<or> i mod 3 = 1 \<or> i mod 3 = 2" by linarith
  then show ?thesis
    by (auto simp: make_instance_def Let_def new_HeavyThing_def createHeavyThing_def
        createHeavyThingThin_def)
qed



section \<open>Scramble\<close>

lemma round64_inv_pow2:
  "round64 (1 / 64) = Fin (1 / 64)" "round64 (1 / 32) = Fin (1 / 32)"
  "round64 (1 / 1024) = Fin (1 / 1024)" "round64 (1 / 8192) = Fin (1 / 8192)"
  using round64_exact [of 1 "- 6"] round64_exact [of 1 "- 5"] round64_exact [of 1 "- 10"]
    round64_exact [of 1 "- 13"]
  by simp_all

lemma scramble_delta_small: "bounded_by (1 / 32) (scramble_delta j y)"
proof -
  obtain r where r: "unit_draw y = Fin r" "0 \<le> r" "r \<le> 1"
    using unit_draw_range by blast
  obtain c where c: "lit (1 / 100) = Fin c" "0 \<le> c" "c \<le> 1 / 64"
    using lit_unit [of "1 / 100" "1 / 64"] round64_inv_pow2 by auto
  obtain e where e: "lit (1 / 10000) = Fin e" "0 \<le> e" "e \<le> 1 / 8192"
    using lit_unit [of "1 / 10000" "1 / 8192"] round64_inv_pow2 by auto
  have "0 \<le> r * c" "r * c \<le> 1 / 64"
    using r c by (simp_all add: mult_le_one mult_mono [of r 1 c "1 / 64", simplified])
  from round64_between [OF this round64_0 round64_inv_pow2(1)]
  obtain p where p: "round64 (r * c) = Fin p" "0 \<le> p" "p \<le> 1 / 64" by blast
  have m: "number_of_nat (j mod 7) = Fin (real (j mod 7))"
    by (intro number_of_nat_exact) (simp add: order.trans [of "j mod 7" 7])
  have m6: "real (j mod 7) \<le> 6"
  proof -
    have "j mod 7 < 7" by simp
    then have "j mod 7 \<le> 6" by linarith
    then show ?thesis by linarith
  qed
  have "0 \<le> real (j mod 7) * e" "real (j mod 7) * e \<le> 1 / 1024"
  proof -
    show "0 \<le> real (j mod 7) * e" using e by simp
    have "real (j mod 7) * e \<le> 6 * (1 / 8192)"
      using m6 e by (intro mult_mono) simp_all
    then show "real (j mod 7) * e \<le> 1 / 1024" by simp
  qed
  from round64_between [OF this round64_0 round64_inv_pow2(3)]
  obtain q where q: "round64 (real (j mod 7) * e) = Fin q" "0 \<le> q" "q \<le> 1 / 1024" by blast
  have "0 \<le> p + q" "p + q \<le> 1 / 32" using p q by simp_all
  from round64_between [OF this round64_0 round64_inv_pow2(2)]
  obtain s where s: "round64 (p + q) = Fin s" "0 \<le> s" "s \<le> 1 / 32" by blast
  have inner: "unit_draw y * lit (1 / 100) + number_of_nat (j mod 7) * lit (1 / 10000) = Fin s"
    by (simp add: r c e m times_number_def plus_number_def p q s)
  have "\<bar>1 * s\<bar> \<le> 1 / 32" "\<bar>- 1 * s\<bar> \<le> 1 / 32" using s by simp_all
  then have "bounded_by (1 / 32) (round64 (1 * s))" "bounded_by (1 / 32) (round64 (- 1 * s))"
    using round64_inv_pow2(2) by (auto intro: round64_bounded_by)
  moreover have "scramble_delta j y = (if y AND 1 = 0 then Fin 1 else Fin (- 1)) * Fin s"
    by (simp add: scramble_delta_def inner uminus_number_def)
  ultimately show ?thesis
    by (simp add: times_number_def)
qed

lemma scramble_loop_eq:
  "i \<le> length vs \<Longrightarrow>
   scramble_loop i x vs =
     ((xorshift32 ^^ (length vs - i)) x,
      take i vs @ map (\<lambda>j. vs ! j + scramble_delta j ((xorshift32 ^^ Suc (j - i)) x)) [i..<length vs])"
proof (induction i x vs rule: scramble_loop.induct)
  case (1 i x vs)
  show ?case
  proof (cases "i < length vs")
    case True
    define x' where "x' = xorshift32 x"
    define v where "v = vs ! i + scramble_delta i x'"
    define ws where "ws = vs[i := v]"
    have lw: "length ws = length vs" by (simp add: ws_def)
    have "scramble_loop i x vs = scramble_loop (i + 1) x' ws"
      using True
      by (subst scramble_loop.simps)
         (simp add: Let_def x'_def v_def ws_def scramble_delta_def unit_draw_def)
    also have "\<dots> = ((xorshift32 ^^ (length ws - (i + 1))) x',
         take (i + 1) ws @ map (\<lambda>j. ws ! j + scramble_delta j ((xorshift32 ^^ Suc (j - (i + 1))) x'))
            [i + 1..<length ws])"
      using "1.IH" [OF True refl refl refl refl refl] True
      by (simp add: x'_def v_def ws_def scramble_delta_def unit_draw_def)
    also have "(xorshift32 ^^ (length ws - (i + 1))) x' = (xorshift32 ^^ (length vs - i)) x"
    proof -
      have "length vs - i = Suc (length ws - (i + 1))" using True lw by simp
      then show ?thesis by (simp add: x'_def funpow_swap1)
    qed
    also have "take (i + 1) ws = take i vs @ [v]"
      using True by (simp add: ws_def take_Suc_conv_app_nth)
    also have "map (\<lambda>j. ws ! j + scramble_delta j ((xorshift32 ^^ Suc (j - (i + 1))) x')) [i + 1..<length ws]
             = map (\<lambda>j. vs ! j + scramble_delta j ((xorshift32 ^^ Suc (j - i)) x)) [i + 1..<length vs]"
      unfolding lw
    proof (rule map_cong [OF refl])
      fix j assume "j \<in> set [i + 1..<length vs]"
      then have j: "i < j" "j - i = Suc (j - (i + 1))" by auto
      then have "ws ! j = vs ! j" by (simp add: ws_def)
      then show "ws ! j + scramble_delta j ((xorshift32 ^^ Suc (j - (i + 1))) x')
               = vs ! j + scramble_delta j ((xorshift32 ^^ Suc (j - i)) x)"
        using j(2) by (simp add: x'_def funpow_swap1)
    qed
    finally show ?thesis using True by (simp add: upt_conv_Cons v_def x'_def)
  next
    case False
    then show ?thesis using "1.prems" by (subst scramble_loop.simps) simp
  qed
qed

lemma doScramble_eq:
  "doScramble st seed =
     (let vs = thin_values st; x0 = scramble_start seed; xn = (xorshift32 ^^ length vs) x0
      in st\<lparr>thin_values := map (\<lambda>j. vs ! j + scramble_delta j ((xorshift32 ^^ Suc j) x0)) [0..<length vs],
            thin_bias := thin_bias st + (number_of_int (sint (xn AND 255)) - lit 128) * lit 0.000001,
            thin_scale := thin_scale st
               * (1 + (number_of_int (sint (drop_bit 8 xn AND 255)) - lit 128) * lit 0.000001)\<rparr>)"
  using scramble_loop_eq [of 0 "thin_values st" "scramble_start seed"]
  by (simp add: doScramble_def scramble_start_def Let_def)

lemma invoke_Scramble:
  "fst (invoke h (Scramble seed) obj) = RVoid"
  "state_of (snd (invoke h (Scramble seed) obj)) = doScramble (state_of obj) seed"
  by (cases obj; simp add: is_thin del: state_of.simps(1,2,4))+

text \<open>
  Claim C3, as the code has it. \<open>scramble\<close> adds to the value at each index a
  perturbation that depends on the seed and the index only, and moves bias and scale by
  steps that depend on the seed and the length of the array only; so two states of the
  same length scrambled with the same seed receive the same perturbations, and end
  equal when they started equal. The result does not depend on the strategy. A seed
  that truncates to zero, such as 0, starts the generator from 2463534242.
\<close>

theorem scramble_perturbation_depends_on_seed_and_length:
  "doScramble st seed =
     (let vs = thin_values st; x0 = scramble_start seed; xn = (xorshift32 ^^ length vs) x0
      in st\<lparr>thin_values := map (\<lambda>j. vs ! j + scramble_delta j ((xorshift32 ^^ Suc j) x0)) [0..<length vs],
            thin_bias := thin_bias st + (number_of_int (sint (xn AND 255)) - lit 128) * lit 0.000001,
            thin_scale := thin_scale st
               * (1 + (number_of_int (sint (drop_bit 8 xn AND 255)) - lit 128) * lit 0.000001)\<rparr>)
   \<and> fst (invoke h (Scramble seed) obj) = RVoid
   \<and> state_of (snd (invoke h (Scramble seed) obj)) = doScramble (state_of obj) seed
   \<and> scramble_start seed =
       (xorshift32 ^^ 8) (if to_int32 seed = 0 then 2463534242 else to_int32 seed)
   \<and> scramble_start (Fin 0) = (xorshift32 ^^ 8) 2463534242"
  using doScramble_eq [of st seed] invoke_Scramble [of h seed obj]
  by (simp add: scramble_start_def seed_or_def)

lemma scrambled_single:
  "thin_values (doScramble (st\<lparr>thin_values := [v]\<rparr>) seed)
     = [v + scramble_delta 0 (xorshift32 (scramble_start seed))]"
  by (simp add: doScramble_eq Let_def)

text \<open>
  Claim C3 as stated fails: two states whose arrays have the same length, one holding
  0 and the other 1, scrambled with the same seed, end with different values.
\<close>

theorem scramble_result_depends_on_values:
  "thin_values (doScramble \<lparr>thin_id = Fin 1, thin_name = ustr ''obj_1'', thin_values = [Fin 0],
        thin_bias = Fin 0, thin_scale = Fin 1, thin_createdAt = Fin 0, thin_tag = ustr ''alpha''\<rparr> (Fin 1))
   \<noteq> thin_values (doScramble \<lparr>thin_id = Fin 1, thin_name = ustr ''obj_1'', thin_values = [Fin 1],
        thin_bias = Fin 0, thin_scale = Fin 1, thin_createdAt = Fin 0, thin_tag = ustr ''alpha''\<rparr> (Fin 1))"
proof -
  define y where "y = xorshift32 (scramble_start (Fin 1))"
  obtain d where d: "scramble_delta 0 y = Fin d" "\<bar>d\<bar> \<le> 1 / 32"
    using scramble_delta_small [of 0 y] by (rule bounded_byE)
  have "bounded_by (1 / 32) (round64 d)"
    using d(2) round64_inv_pow2(2) by (intro round64_bounded_by) simp_all
  then obtain a where a: "round64 d = Fin a" "\<bar>a\<bar> \<le> 1 / 32" by (rule bounded_byE)
  have "1 / 2 \<le> 1 + d" using d(2) by linarith
  then have "Fin (1 / 2) \<le> round64 (1 + d)" using round64_mono [of "1 / 2" "1 + d"] by simp
  then have "round64 (1 + d) \<noteq> Fin a" using a(2) by (cases "round64 (1 + d)") auto
  then have "Fin 0 + scramble_delta 0 y \<noteq> Fin 1 + scramble_delta 0 y"
    by (simp add: d(1) plus_number_def a(1))
  moreover have "\<And>v. thin_values (doScramble \<lparr>thin_id = Fin 1, thin_name = ustr ''obj_1'', thin_values = [v],
        thin_bias = Fin 0, thin_scale = Fin 1, thin_createdAt = Fin 0, thin_tag = ustr ''alpha''\<rparr> (Fin 1))
      = [v + scramble_delta 0 y]"
    using scrambled_single [where st = "\<lparr>thin_id = Fin 1, thin_name = ustr ''obj_1'', thin_values = [],
        thin_bias = Fin 0, thin_scale = Fin 1, thin_createdAt = Fin 0, thin_tag = ustr ''alpha''\<rparr>"
        and seed = "Fin 1"]
    by (simp add: y_def)
  ultimately show ?thesis by simp
qed

section \<open>The rolling average\<close>

lemma window_bounds: "1 \<le> window n ws \<and> window n ws \<le> max 1 n"
  by (auto simp: window_def max_def min_def)

lemma window_one: "window n (Fin 1) = 1"
  by (simp add: window_def max_def min_def)

lemma adjust_loop_eq:
  "i \<le> n \<Longrightarrow> length out = n \<Longrightarrow>
   adjust_loop n scale bias i out =
     take i out @ map (\<lambda>v. v * scale + bias * lit 0.001) (drop i out)"
proof (induction n scale bias i out rule: adjust_loop.induct)
  case (1 n scale bias i out)
  show ?case
  proof (cases "i < n")
    case True
    define w where "w = out ! i * scale + bias * lit 0.001"
    have "adjust_loop n scale bias i out = adjust_loop n scale bias (i + 1) (out[i := w])"
      using True by (subst adjust_loop.simps) (simp add: Let_def w_def)
    also have "\<dots> = take (i + 1) (out[i := w])
                   @ map (\<lambda>v. v * scale + bias * lit 0.001) (drop (i + 1) (out[i := w]))"
      using "1.IH" [OF True refl refl] True "1.prems" by (simp add: w_def)
    also have "take (i + 1) (out[i := w]) = take i out @ [w]"
      using True "1.prems" by (simp add: take_Suc_conv_app_nth)
    also have "drop (i + 1) (out[i := w]) = drop (i + 1) out" by simp
    finally show ?thesis
      using True "1.prems" by (simp add: w_def Cons_nth_drop_Suc [symmetric])
  next
    case False
    then show ?thesis using "1.prems" by (subst adjust_loop.simps) simp
  qed
qed

lemma is_double_zero_plus: "is_double v \<Longrightarrow> 0 + v = v"
  by (cases v) (simp_all add: is_double_def plus_number_def zero_number_def)

lemma is_double_div_one: "is_double v \<Longrightarrow> v / number_of_nat 1 = v"
proof -
  have "number_of_nat 1 = Fin 1" using number_of_nat_exact [of 1] by simp
  then show "is_double v \<Longrightarrow> v / number_of_nat 1 = v"
    by (cases v) (simp_all add: is_double_def divide_number_def inf_of_def is_neg_def)
qed

lemma is_double_div_Suc_0: "is_double v \<Longrightarrow> v / number_of_nat (Suc 0) = v"
  using is_double_div_one [of v] by simp

lemma adjacent_exact_nth:
  "adjacent_exact vs \<Longrightarrow> Suc k < length vs \<Longrightarrow> (vs ! k + vs ! Suc k) - vs ! k = vs ! Suc k"
proof (induction vs arbitrary: k rule: adjacent_exact.induct)
  case (1 a b rest)
  then show ?case by (cases k) simp_all
qed simp_all

lemma average_loop_one:
  "list_all is_double vs \<Longrightarrow> adjacent_exact vs \<Longrightarrow>
   i \<le> n \<Longrightarrow> n = length vs \<Longrightarrow> length out = n \<Longrightarrow>
   running = (if i = 0 then 0 else vs ! (i - 1)) \<Longrightarrow>
   average_loop n 1 vs i running out = take i out @ drop i vs"
proof (induction n "1::nat" vs i running out rule: average_loop.induct)
  case (1 n vs i running out)
  note dbls = "1.prems"(1) and adjs = "1.prems"(2)
  show ?case
  proof (cases "i < n")
    case True
    have dbl: "is_double (vs ! i)"
      using dbls True "1.prems" by (auto simp: list_all_length)
    have r2: "(if 1 \<le> i then running + vs ! i - vs ! (i - 1) else running + vs ! i) = vs ! i"
    proof (cases "i = 0")
      case True
      then show ?thesis using "1.prems" dbl by (simp add: is_double_zero_plus)
    next
      case False
      then obtain k where k: "i = Suc k" by (cases i) auto
      then show ?thesis
        using adjacent_exact_nth [OF adjs, of k] True "1.prems" by simp
    qed
    have "average_loop n 1 vs i running out = average_loop n 1 vs (i + 1) (vs ! i) (out[i := vs ! i])"
      using True r2 by (subst average_loop.simps) (simp add: Let_def is_double_div_Suc_0 [OF dbl])
    also have "\<dots> = take (i + 1) (out[i := vs ! i]) @ drop (i + 1) vs"
      using "1.hyps" [OF True refl refl refl] True "1.prems" r2
      by (simp add: is_double_div_Suc_0 [OF dbl])
    also have "take (i + 1) (out[i := vs ! i]) = take i out @ [vs ! i]"
      using True "1.prems" by (simp add: take_Suc_conv_app_nth)
    finally show ?thesis
      using True "1.prems" by (simp add: Cons_nth_drop_Suc)
  next
    case False
    then show ?thesis using "1.prems" by (subst average_loop.simps) simp
  qed
qed

lemma doRollingAverage_one:
  assumes "list_all is_double (thin_values st)" "adjacent_exact (thin_values st)"
  shows "doRollingAverage st (Fin 1)
           = map (\<lambda>v. v * thin_scale st + thin_bias st * lit 0.001) (thin_values st)"
proof -
  have "average_loop (length (thin_values st)) 1 (thin_values st) 0 0
          (new_Array (length (thin_values st))) = thin_values st"
    using average_loop_one [OF assms, of 0 "length (thin_values st)"
        "new_Array (length (thin_values st))" 0]
    by (simp add: new_Array_def)
  then show ?thesis
    by (simp add: doRollingAverage_def window_one Let_def adjust_loop_eq)
qed

lemma length_doRollingAverage: "length (doRollingAverage st ws) = length (thin_values st)"
  by (simp add: doRollingAverage_def Let_def length_adjust_loop length_average_loop new_Array_def)

lemma invoke_RollingAverage:
  "invoke h (RollingAverage ws) obj = (RArray (doRollingAverage (state_of obj) ws), obj)"
  by (cases obj) (simp_all add: is_thin del: state_of.simps(1,2,4))



section \<open>A running sum that loses the small value\<close>

lemma round64_eval:
  assumes "2 powi k \<le> \<bar>x\<bar>" "\<bar>x\<bar> < 2 powi (k + 1)" "- 1022 \<le> k"
    and "rhe (x / 2 powi (k - 52)) = m" "\<bar>real_of_int m * 2 powi (k - 52)\<bar> < 2 ^ 1024"
  shows "round64 x = Fin (of_int m * 2 powi (k - 52))"
proof -
  have pos: "(0::real) < 2 powi k" by (rule zero_less_power_int) simp
  have x0: "x \<noteq> 0"
  proof
    assume "x = 0"
    with assms(1) have "2 powi k \<le> (0::real)" by simp
    with pos show False by linarith
  qed
  have "ilog2 \<bar>x\<bar> = k" using assms(1,2) by (rule ilog2_eqI)
  then have "ulp_exp x = k - 52" using assms(3) by (simp add: ulp_exp_def)
  then have "round_real x = of_int m * 2 powi (k - 52)"
    using x0 assms(4) by (simp add: round_real_def Let_def)
  then show ?thesis using assms(5) by (auto simp: round64_def overflow_def)
qed

lemma round64_2p60: "round64 1152921504606846976 = Fin 1152921504606846976"
  using round64_exact [of 1 60] by simp

lemma round64_2p60_plus_1: "round64 1152921504606846977 = Fin 1152921504606846976"
proof -
  have "rhe (1152921504606846977 / 2 powi (60 - 52)) = 4503599627370496"
    by (simp add: rhe_def Let_def)
  from round64_eval [of 60 1152921504606846977, OF _ _ _ this]
  show ?thesis by simp
qed

lemma lit_thousandth: "\<exists>c. lit (1 / 1000) = Fin c"
  using lit_unit [of "1 / 1000" 1] by auto


section \<open>Normalisation\<close>

lemma normalize_loop_eq:
  "i \<le> length vs \<Longrightarrow>
   normalize_loop mean std i vs =
     take i vs @ map (\<lambda>v. clamp8 ((v - mean) / (std + epsilon))) (drop i vs)"
proof (induction mean std i vs rule: normalize_loop.induct)
  case (1 mean std i vs)
  show ?case
  proof (cases "i < length vs")
    case True
    define w where "w = clamp8 ((vs ! i - mean) / (std + epsilon))"
    have "normalize_loop mean std i vs = normalize_loop mean std (i + 1) (vs[i := w])"
      using True by (subst normalize_loop.simps) (simp add: Let_def w_def clamp8_def)
    also have "\<dots> = take (i + 1) (vs[i := w])
                   @ map (\<lambda>v. clamp8 ((v - mean) / (std + epsilon))) (drop (i + 1) (vs[i := w]))"
      using "1.IH" [OF True refl refl refl] True by (simp add: w_def clamp8_def)
    also have "take (i + 1) (vs[i := w]) = take i vs @ [w]"
      using True by (simp add: take_Suc_conv_app_nth)
    also have "drop (i + 1) (vs[i := w]) = drop (i + 1) vs" by simp
    finally show ?thesis
      using True by (simp add: w_def Cons_nth_drop_Suc [symmetric])
  next
    case False
    then show ?thesis using "1.prems" by (subst normalize_loop.simps) simp
  qed
qed

lemma doNormalizeInPlace_eq:
  "doNormalizeInPlace st =
     st\<lparr>thin_values := map (\<lambda>v. clamp8 ((v - norm_mean (thin_values st))
                                          / (norm_std (thin_values st) + epsilon))) (thin_values st),
        thin_bias := thin_bias st * lit 0.9 + norm_mean (thin_values st) * lit 0.1,
        thin_scale := thin_scale st * lit 0.9
                        + (1 / (norm_std (thin_values st) + epsilon)) * lit 0.1\<rparr>"
  by (simp add: doNormalizeInPlace_def norm_mean_def norm_std_def Let_def normalize_loop_eq)

lemma invoke_NormalizeInPlace:
  "fst (invoke h NormalizeInPlace obj) = RVoid"
  "state_of (snd (invoke h NormalizeInPlace obj)) = doNormalizeInPlace (state_of obj)"
  by (cases obj; simp add: is_thin del: state_of.simps(1,2,4))+

lemma epsilon_value: "\<exists>e. epsilon = Fin e \<and> 1 / 1048576 \<le> e \<and> e \<le> 1"
proof -
  have x: "round64 (1 / 1048576) = Fin (1 / 1048576)"
    using round64_exact [of 1 "- 20"] by simp
  have "(1::real) / 1048576 \<le> 1 / 1000000" "(1::real) / 1000000 \<le> 1" by simp_all
  from round64_between [OF this x round64_1]
  show ?thesis by (simp add: epsilon_def lit_def)
qed

lemma positive_number: "0 < (d::number) \<longleftrightarrow> d = PInf \<or> (\<exists>b. d = Fin b \<and> 0 < b)"
  by (cases d) (simp_all add: zero_number_def)

lemma norm_std_cases:
  "norm_std vs = Fin 1 \<or> norm_std vs = PInf \<or> (\<exists>s. norm_std vs = Fin s \<and> 0 \<le> s)"
proof -
  have sq: "\<And>v. 0 < v \<Longrightarrow> Math_sqrt (Fin v) = PInf \<or> (\<exists>s. Math_sqrt (Fin v) = Fin s \<and> 0 \<le> s)"
  proof -
    fix v :: real assume v: "0 < v"
    have "Fin 0 \<le> round64 (sqrt v)" using round64_mono [of 0 "sqrt v"] v by simp
    then show "Math_sqrt (Fin v) = PInf \<or> (\<exists>s. Math_sqrt (Fin v) = Fin s \<and> 0 \<le> s)"
      using v by (cases "round64 (sqrt v)") (simp_all add: Math_sqrt_def)
  qed
  have "\<And>x. (if 0 < x then Math_sqrt x else 1) = Fin 1
        \<or> (if 0 < x then Math_sqrt x else 1) = PInf
        \<or> (\<exists>s. (if 0 < x then Math_sqrt x else 1) = Fin s \<and> 0 \<le> s)"
  proof -
    fix x :: number
    show "(if 0 < x then Math_sqrt x else 1) = Fin 1
        \<or> (if 0 < x then Math_sqrt x else 1) = PInf
        \<or> (\<exists>s. (if 0 < x then Math_sqrt x else 1) = Fin s \<and> 0 \<le> s)"
    proof (cases "0 < x")
      case True
      then consider "x = PInf" | b where "x = Fin b" "0 < b" by (auto simp: positive_number)
      then show ?thesis
      proof cases
        case 1
        then show ?thesis using True by (simp add: Math_sqrt_def)
      next
        case 2
        then show ?thesis using True sq [OF 2(2)] by auto
      qed
    next
      case False
      then show ?thesis by (simp add: one_number_def)
    qed
  qed
  then show ?thesis unfolding norm_std_def Let_def by blast
qed

lemma divisor_positive: "0 < norm_std vs + epsilon"
proof -
  obtain e where e: "epsilon = Fin e" "1 / 1048576 \<le> e" "e \<le> 1"
    using epsilon_value by blast
  have x: "round64 (1 / 1048576) = Fin (1 / 1048576)"
    using round64_exact [of 1 "- 20"] by simp
  have ge: "\<And>s. 0 \<le> s \<Longrightarrow> 0 < Fin s + Fin e"
  proof -
    fix s :: real assume "0 \<le> s"
    then have "1 / 1048576 \<le> s + e" using e by linarith
    then have "Fin (1 / 1048576) \<le> round64 (s + e)"
      using round64_mono [of "1 / 1048576" "s + e"] x by simp
    then show "0 < Fin s + Fin e"
      by (cases "round64 (s + e)") (simp_all add: plus_number_def zero_number_def)
  qed
  from norm_std_cases [of vs] show ?thesis
  proof (elim disjE exE conjE)
    assume "norm_std vs = Fin 1"
    then show ?thesis using ge [of 1] e by simp
  next
    assume "norm_std vs = PInf"
    then show ?thesis by (simp add: e(1) plus_number_def zero_number_def)
  next
    fix s assume "norm_std vs = Fin s" "0 \<le> s"
    then show ?thesis using ge [of s] e by simp
  qed
qed

lemma clamp8_NaN: "clamp8 NaN = NaN"
  by (simp add: clamp8_def Math_max_def Math_min_def)

lemma clamp8_range: "x \<noteq> NaN \<Longrightarrow> Fin (- 8) \<le> clamp8 x \<and> clamp8 x \<le> Fin 8"
  by (cases x) (simp_all add: clamp8_def Math_max_def Math_min_def uminus_number_def)

lemma clamp8_any: "clamp8 x = NaN \<or> (Fin (- 8) \<le> clamp8 x \<and> clamp8 x \<le> Fin 8)"
  using clamp8_NaN clamp8_range by (cases "x = NaN") auto

lemma finite_over_positive: "0 < d \<Longrightarrow> Fin c / d \<noteq> NaN"
  by (auto simp: positive_number divide_number_def)

subsection \<open>Values that cannot overflow\<close>

lemma exact_multiple:
  assumes "k < 2 ^ 53"
  shows "round64 (real k * 2 ^ 900) = Fin (real k * 2 ^ 900)"
proof -
  have k: "real k < 2 ^ 53" using assms by (metis of_nat_less_iff of_nat_numeral of_nat_power)
  have "real k * 2 ^ 900 < 2 ^ 53 * 2 ^ 900"
    using k by (intro mult_strict_right_mono) simp_all
  also have "\<dots> < (2::real) ^ 1024" by simp
  finally have "\<bar>real_of_int (int k) * 2 powi 900\<bar> < 2 ^ 1024" by simp
  moreover have "\<bar>int k\<bar> < 2 ^ 53" using assms by simp
  ultimately have "round64 (of_int (int k) * 2 powi 900) = Fin (of_int (int k) * 2 powi 900)"
    by (intro round64_exact; simp)
  then show ?thesis by simp
qed

lemma sum_bounded:
  "list_all (bounded_by (2 ^ 900)) vs \<Longrightarrow> \<bar>s\<bar> \<le> real k * 2 ^ 900 \<Longrightarrow> k + length vs < 2 ^ 53 \<Longrightarrow>
   \<exists>t. foldl (\<lambda>sum v. sum + v) (Fin s) vs = Fin t \<and> \<bar>t\<bar> \<le> real (k + length vs) * 2 ^ 900"
proof (induction vs arbitrary: s k)
  case Nil
  then show ?case by simp
next
  case (Cons v vs)
  from Cons.prems(1) obtain a where a: "v = Fin a" "\<bar>a\<bar> \<le> 2 ^ 900"
    by (auto elim: bounded_byE)
  have k1: "Suc k < 2 ^ 53" using Cons.prems(3) by simp
  have "\<bar>s + a\<bar> \<le> real (Suc k) * 2 ^ 900"
    using Cons.prems(2) a(2) by (simp add: algebra_simps)
  then have "bounded_by (real (Suc k) * 2 ^ 900) (round64 (s + a))"
    using exact_multiple [OF k1] by (intro round64_bounded_by)
  then obtain u where u: "round64 (s + a) = Fin u" "\<bar>u\<bar> \<le> real (Suc k) * 2 ^ 900"
    by (rule bounded_byE)
  have "\<exists>t. foldl (\<lambda>sum v. sum + v) (Fin u) vs = Fin t \<and> \<bar>t\<bar> \<le> real (Suc k + length vs) * 2 ^ 900"
    using Cons.prems(1,3) u(2) by (intro Cons.IH) simp_all
  then show ?case by (simp add: a(1) plus_number_def u(1))
qed

lemma mean_bounded:
  assumes "list_all (bounded_by (2 ^ 900)) vs" "length vs < 2 ^ 53"
  shows "bounded_by (2 ^ 900) (norm_mean vs)"
proof (cases "0 < length vs")
  case False
  then show ?thesis by (simp add: norm_mean_def zero_number_def)
next
  case True
  define n where "n = length vs"
  have n: "0 < n" "n < 2 ^ 53" using True assms(2) by (simp_all add: n_def)
  obtain t where t: "sum_values vs = Fin t" "\<bar>t\<bar> \<le> real n * 2 ^ 900"
    using sum_bounded [OF assms(1), of 0 0] assms(2)
    by (auto simp: sum_values_def zero_number_def n_def)
  have nn: "number_of_nat n = Fin (real n)" using n by (intro number_of_nat_exact) simp
  have "\<bar>t / real n\<bar> \<le> 2 ^ 900"
    using t(2) n(1) by (simp add: field_simps)
  moreover have "round64 (2 ^ 900) = Fin (2 ^ 900)" using exact_multiple [of 1] by simp
  ultimately have "bounded_by (2 ^ 900) (round64 (t / real n))" by (rule round64_bounded_by)
  then show ?thesis
    using True n(1) by (simp add: norm_mean_def t(1) nn divide_number_def n_def [symmetric])
qed

lemma centered_finite:
  assumes "bounded_by (2 ^ 900) v" "bounded_by (2 ^ 900) m"
  shows "\<exists>c. v - m = Fin c"
proof -
  obtain a where a: "v = Fin a" "\<bar>a\<bar> \<le> 2 ^ 900" using assms(1) by (rule bounded_byE)
  obtain b where b: "m = Fin b" "\<bar>b\<bar> \<le> 2 ^ 900" using assms(2) by (rule bounded_byE)
  have "\<bar>a - b\<bar> \<le> real 2 * 2 ^ 900" using a(2) b(2) by simp
  then have "bounded_by (real 2 * 2 ^ 900) (round64 (a - b))"
    using exact_multiple [of 2] by (intro round64_bounded_by) simp_all
  then obtain c where "round64 (a - b) = Fin c" by (auto elim: bounded_byE)
  then show ?thesis by (simp add: a(1) b(1) minus_number_def)
qed

lemma normalized_in_range:
  assumes "list_all (bounded_by (2 ^ 900)) vs" "length vs < 2 ^ 53" "v \<in> set vs"
  shows "Fin (- 8) \<le> clamp8 ((v - norm_mean vs) / (norm_std vs + epsilon))
       \<and> clamp8 ((v - norm_mean vs) / (norm_std vs + epsilon)) \<le> Fin 8"
proof -
  have "bounded_by (2 ^ 900) v" using assms(1,3) by (simp add: list_all_iff)
  then obtain c where c: "v - norm_mean vs = Fin c"
    using centered_finite mean_bounded [OF assms(1,2)] by blast
  have "Fin c / (norm_std vs + epsilon) \<noteq> NaN"
    by (rule finite_over_positive) (rule divisor_positive)
  then show ?thesis unfolding c by (rule clamp8_range)
qed

lemma norm_std_short: "norm_std [] = 1" "norm_std [v] = 1"
  by (simp_all add: norm_std_def Let_def zero_number_def)

text \<open>
  Claim C5, as the code has it. \<open>normalizeInPlace\<close> divides by \<open>std + 1e-6\<close>, which
  is strictly positive for every state, so it never divides by zero; it raises no error;
  the standard deviation is 1 for an empty or one-element array. Every value after the
  call is the clamped quotient, which is NaN or lies between \<open>-8\<close> and \<open>8\<close>; it lies
  between \<open>-8\<close> and \<open>8\<close> when the values before the call are finite and not above
  \<open>2 ^ 900\<close> in magnitude, so that no sum overflows.
\<close>

theorem normalize_divisor_positive_and_clamped:
  "0 < norm_std (thin_values st) + epsilon
   \<and> doNormalizeInPlace st =
       st\<lparr>thin_values := map (\<lambda>v. clamp8 ((v - norm_mean (thin_values st))
                                          / (norm_std (thin_values st) + epsilon))) (thin_values st),
          thin_bias := thin_bias st * lit 0.9 + norm_mean (thin_values st) * lit 0.1,
          thin_scale := thin_scale st * lit 0.9
                          + (1 / (norm_std (thin_values st) + epsilon)) * lit 0.1\<rparr>
   \<and> fst (invoke h NormalizeInPlace obj) = RVoid
   \<and> state_of (snd (invoke h NormalizeInPlace obj)) = doNormalizeInPlace (state_of obj)
   \<and> norm_std [] = 1 \<and> norm_std [v] = 1
   \<and> list_all (\<lambda>v. v = NaN \<or> (Fin (- 8) \<le> v \<and> v \<le> Fin 8)) (thin_values (doNormalizeInPlace st))
   \<and> (list_all (bounded_by (2 ^ 900)) (thin_values st) \<and> length (thin_values st) < 2 ^ 53
        \<longrightarrow> list_all (\<lambda>v. Fin (- 8) \<le> v \<and> v \<le> Fin 8) (thin_values (doNormalizeInPlace st)))"
proof -
  have a: "list_all (\<lambda>v. v = NaN \<or> (Fin (- 8) \<le> v \<and> v \<le> Fin 8)) (thin_values (doNormalizeInPlace st))"
    using clamp8_any by (simp add: doNormalizeInPlace_eq list_all_iff)
  have b: "list_all (bounded_by (2 ^ 900)) (thin_values st) \<and> length (thin_values st) < 2 ^ 53
        \<longrightarrow> list_all (\<lambda>v. Fin (- 8) \<le> v \<and> v \<le> Fin 8) (thin_values (doNormalizeInPlace st))"
    using normalized_in_range [of "thin_values st"]
    by (simp add: doNormalizeInPlace_eq list_all_iff)
  show ?thesis
    using divisor_positive [of "thin_values st"] doNormalizeInPlace_eq [of st]
      invoke_NormalizeInPlace [of h obj] norm_std_short a b
    by blast
qed

theorem normalize_divisor_positive_and_clamped_witness:
  "list_all (\<lambda>v. Fin (- 8) \<le> v \<and> v \<le> Fin 8)
     (thin_values (doNormalizeInPlace \<lparr>thin_id = Fin 1, thin_name = ustr ''obj_1'',
        thin_values = [Fin 3, Fin 3, Fin 3],
        thin_bias = Fin 0, thin_scale = Fin 1, thin_createdAt = Fin 0, thin_tag = ustr ''alpha''\<rparr>))"
  using normalize_divisor_positive_and_clamped [where st = "\<lparr>thin_id = Fin 1, thin_name = ustr ''obj_1'',
        thin_values = [Fin 3, Fin 3, Fin 3],
        thin_bias = Fin 0, thin_scale = Fin 1, thin_createdAt = Fin 0, thin_tag = ustr ''alpha''\<rparr>",
      THEN conjunct2, THEN conjunct2, THEN conjunct2, THEN conjunct2, THEN conjunct2,
      THEN conjunct2, THEN conjunct2]
  by simp

subsection \<open>Finite values whose sum overflows\<close>

lemma overflowing_pair:
  fixes A :: real
  assumes "round64 A = Fin A" "round64 (2 * A) = PInf"
  shows "map (\<lambda>v. clamp8 ((v - norm_mean [Fin A, Fin A]) / (norm_std [Fin A, Fin A] + epsilon)))
           [Fin A, Fin A] = [NaN, NaN]"
proof -
  obtain e where e: "epsilon = Fin e" using epsilon_value by blast
  have n2: "number_of_nat (Suc (Suc 0)) = Fin 2" "number_of_nat (Suc 0) = Fin 1"
    using number_of_nat_exact [of "Suc (Suc 0)"] number_of_nat_exact [of "Suc 0"] by simp_all
  have s: "sum_values [Fin A, Fin A] = PInf"
    by (simp add: sum_values_def plus_number_def zero_number_def assms)
  have m: "norm_mean [Fin A, Fin A] = PInf"
    by (simp add: norm_mean_def s n2 divide_number_def inf_of_def is_neg_def)
  have q: "sq_values PInf [Fin A, Fin A] = PInf"
    by (simp add: sq_values_def Let_def minus_number_def uminus_number_def times_number_def
        plus_number_def zero_number_def inf_of_def is_neg_def)
  have sd: "norm_std [Fin A, Fin A] = PInf"
    by (simp add: norm_std_def m q n2 Let_def divide_number_def inf_of_def is_neg_def
        zero_number_def Math_sqrt_def)
  show ?thesis
    by (simp add: m sd e plus_number_def minus_number_def uminus_number_def divide_number_def
        clamp8_NaN)
qed

text \<open>
  Claim C5 as stated fails: two finite values \<open>2 ^ 1023\<close> have an infinite sum, so the
  mean, the deviations and the standard deviation are infinite, each quotient is NaN,
  and the values after the call are NaN, outside \<open>[-8, 8]\<close>.
\<close>

theorem normalize_overflow_gives_NaN:
  "thin_values (doNormalizeInPlace \<lparr>thin_id = Fin 1, thin_name = ustr ''obj_1'',
        thin_values = [Fin (2 ^ 1023), Fin (2 ^ 1023)],
        thin_bias = Fin 0, thin_scale = Fin 1, thin_createdAt = Fin 0, thin_tag = ustr ''alpha''\<rparr>)
     = [NaN, NaN]
   \<and> \<not> (Fin (- 8) \<le> NaN \<and> NaN \<le> Fin 8)"
proof -
  define A :: real where "A = 2 ^ 1023"
  have x: "round64 A = Fin A"
    using round64_exact [of 1 1023] by (simp add: A_def)
  have r: "round_real (2 ^ 1024) = 2 ^ 1024"
    using round_real_exact [of 1 1024] by simp
  have AA: "2 * A = 2 ^ 1024" by (simp add: A_def)
  have y: "round64 (2 * A) = PInf"
    unfolding AA round64_def r overflow_def by simp
  have "thin_values (doNormalizeInPlace \<lparr>thin_id = Fin 1, thin_name = ustr ''obj_1'',
        thin_values = [Fin A, Fin A],
        thin_bias = Fin 0, thin_scale = Fin 1, thin_createdAt = Fin 0, thin_tag = ustr ''alpha''\<rparr>)
     = [NaN, NaN]"
    using overflowing_pair [OF x y] by (simp add: doNormalizeInPlace_eq)
  then show ?thesis by (simp add: A_def)
qed

end
